theory Spec2Isabelle
  imports Main "HOL-Library.AList"
begin

chapter \<open>The model\<close>

section \<open>Strings of the host language\<close>

text \<open>
  A JavaScript string is modelled as a \<^typ>\<open>string\<close>, one \<^typ>\<open>char\<close> per code unit
  (code units up to 255). The three characters the SSE code treats specially are named.
\<close>

definition CR :: char where "CR = CHR 0x0D"
definition LF :: char where "LF = CHR 0x0A"
definition NUL :: char where "NUL = CHR 0x00"

text \<open>JavaScript truthiness of a string: the empty string is falsy.\<close>

definition truthy :: "string \<Rightarrow> bool" where
  "truthy s = (s \<noteq> [])"

text \<open>Truthiness of a possibly absent (\<open>undefined\<close> or \<open>null\<close>) string.\<close>

definition truthy_opt :: "string option \<Rightarrow> bool" where
  "truthy_opt s = (case s of None \<Rightarrow> False | Some v \<Rightarrow> truthy v)"

text \<open>\<open>a ?? b\<close>: the right operand is taken only when the left one is null or undefined.\<close>

definition nullish :: "'a option \<Rightarrow> 'a \<Rightarrow> 'a" where
  "nullish a b = (case a of None \<Rightarrow> b | Some v \<Rightarrow> v)"

text \<open>
  \<open>s.split(LINE_SEP_EXPR)\<close> with \<open>LINE_SEP_EXPR = /\r\n|\r|\n/\<close>: the string is cut at
  every terminator, \<open>\r\n\<close> counting as one; the empty string gives one empty fragment.
\<close>

fun split_LINE_SEP :: "string \<Rightarrow> string list" where
  "split_LINE_SEP [] = [[]]"
| "split_LINE_SEP (c # cs) =
     (if c = CR then
        (case cs of
           [] \<Rightarrow> [] # split_LINE_SEP cs
         | d # ds \<Rightarrow> if d = LF then [] # split_LINE_SEP ds else [] # split_LINE_SEP cs)
      else if c = LF then [] # split_LINE_SEP cs
      else (case split_LINE_SEP cs of
              [] \<Rightarrow> [[c]]
            | l # ls \<Rightarrow> (c # l) # ls))"

text \<open>
  \<open>s.replace(LINE_SEP_EXPR, '')\<close>: the expression carries no \<open>g\<close> flag, so only the
  leftmost match is removed.
\<close>

fun replace_LINE_SEP :: "string \<Rightarrow> string" where
  "replace_LINE_SEP [] = []"
| "replace_LINE_SEP (c # cs) =
     (if c = CR then
        (case cs of
           [] \<Rightarrow> cs
         | d # ds \<Rightarrow> if d = LF then ds else cs)
      else if c = LF then cs
      else c # replace_LINE_SEP cs)"

section \<open>Numbers of the host language\<close>

text \<open>
  A JavaScript Number is a binary64 floating-point value. The program reads and writes
  numbers that are integers, so the model keeps the integer-valued Numbers, the two
  infinities and \<open>NaN\<close>: \<open>Finite i\<close> stands for the Number whose value is the
  integer \<open>i\<close>, and only an \<open>i\<close> that binary64 represents exactly (\<open>toDouble\<close> below
  leaves it unchanged) is a value of the program. Numbers with a fractional part are
  outside the model, and \<open>-0\<close> is not told apart from \<open>0\<close> (both print as \<open>0\<close> and
  are equal under \<open>===\<close>).
\<close>

datatype number = Finite int | PosInfinity | NegInfinity | NaN

definition isNaN :: "number \<Rightarrow> bool" where
  "isNaN x = (x = NaN)"

text \<open>The number of binary digits of a positive integer.\<close>

function bitLength :: "int \<Rightarrow> nat" where
  "bitLength m = (if m \<le> 0 then 0 else Suc (bitLength (m div 2)))"
  by pat_completeness auto
termination
  by (relation "measure nat") auto

text \<open>
  The Number value of a non-negative mathematical integer: the nearest integer with
  at most 53 significant binary digits, a tie going to the one whose last kept digit
  is even. Below \<open>2^53\<close> every integer is its own Number value. A result of \<open>2^1024\<close>
  or more stands for an overflow, which \<open>toNumber\<close> turns into an infinity.
\<close>

definition toDouble :: "int \<Rightarrow> int" where
  "toDouble m =
     (if m < 2 ^ 53 then m
      else (let k = bitLength m - 53;
                q = m div 2 ^ k;
                r = m mod 2 ^ k;
                half = 2 ^ (k - 1)
            in (if r > half \<or> (r = half \<and> odd q) then q + 1 else q) * 2 ^ k))"

definition toNumber :: "bool \<Rightarrow> int \<Rightarrow> number" where
  "toNumber neg m =
     (let d = toDouble m
      in if d \<ge> 2 ^ 1024 then (if neg then NegInfinity else PosInfinity)
         else Finite (if neg then - d else d))"

text \<open>The decimal digits of a non-negative integer.\<close>

definition digit_char :: "nat \<Rightarrow> char" where
  "digit_char d = char_of (48 + d)"

function decimalDigits :: "int \<Rightarrow> string" where
  "decimalDigits n =
     (if n < 10 then [digit_char (nat n)]
      else decimalDigits (n div 10) @ [digit_char (nat (n mod 10))])"
  by pat_completeness auto
termination
  by (relation "measure nat") auto

text \<open>
  \<open>Number::toString\<close> prints the shortest decimal that still has the given Number value:
  digits \<open>s\<close>, as few as possible, and a power of ten with \<open>s \<times> 10^p\<close> of Number value
  \<open>x\<close>; of several such \<open>s\<close> the one nearest to \<open>x\<close>, and of two equally near the even
  one. \<open>candidates x p\<close> are the multiples of \<open>10^p\<close> next to \<open>x\<close> that have the Number value
  \<open>x\<close>, the preferred one first; \<open>shortestDecimal x\<close> takes the largest \<open>p\<close> that has one.
  Below \<open>2^53\<close> no other integer has the Number value \<open>x\<close>, so \<open>x\<close> is its own shortest
  decimal. (For an \<open>x\<close> that is not a Number value, no candidate may exist; the function
  then returns \<open>x\<close>.)
\<close>

definition candidates :: "int \<Rightarrow> nat \<Rightarrow> int list" where
  "candidates x p =
     (let s = x div 10 ^ p;
          lo = s * 10 ^ p;
          hi = lo + 10 ^ p
      in filter (\<lambda>v. toDouble v = x)
           (if x - lo < hi - x \<or> (x - lo = hi - x \<and> even s) then [lo, hi] else [hi, lo]))"

definition shortestDecimal :: "int \<Rightarrow> int" where
  "shortestDecimal x =
     (if x < 2 ^ 53 then x
      else (case concat (map (candidates x) (rev [0..<length (decimalDigits x)])) of
              [] \<Rightarrow> x
            | v # _ \<Rightarrow> v))"

definition stripZeros :: "string \<Rightarrow> string" where
  "stripZeros ds = rev (dropWhile (\<lambda>c. c = CHR ''0'') (rev ds))"

text \<open>
  \<open>`${x}`\<close> and \<open>String(x)\<close> for a non-negative integer-valued Number: up to 21 digits are
  written out in full (the shortest decimal, padded with zeros); from \<open>10^21\<close> on the
  exponent notation is used, as in \<open>1e+21\<close> and \<open>1.1805916207174113e+21\<close>.
\<close>

definition magnitudeToString :: "int \<Rightarrow> string" where
  "magnitudeToString x =
     (let v = shortestDecimal x;
          n = length (decimalDigits v)
      in if n \<le> 21 then decimalDigits v
         else (let s = stripZeros (decimalDigits v)
               in (if length s = 1 then s else hd s # CHR ''.'' # tl s)
                  @ ''e+'' @ decimalDigits (int n - 1)))"

definition numberToString :: "number \<Rightarrow> string" where
  "numberToString x =
     (case x of
        NaN \<Rightarrow> ''NaN''
      | PosInfinity \<Rightarrow> ''Infinity''
      | NegInfinity \<Rightarrow> ''-Infinity''
      | Finite i \<Rightarrow> if i < 0 then CHR ''-'' # magnitudeToString (- i) else magnitudeToString i)"

section \<open>The SSE codec\<close>

text \<open>
  \<open>interface ServerSentEvent { data?: string; event?: string; id?: string; retry?: number }\<close>.
  A field that is absent (\<open>undefined\<close>) is \<open>None\<close>; the decoder's \<open>retry: null\<close> is
  \<open>None\<close> as well.
\<close>

record ServerSentEvent =
  sse_data :: "string option"
  sse_event :: "string option"
  sse_id :: "string option"
  sse_retry :: "number option"

text \<open>
  \<open>encodeServerSentEvent(sse, comment = '', sep = '\r\n')\<close>. The result is the text of
  the buffer. The \<open>TypeError\<close> branch is taken for a \<open>retry\<close> that is present and not
  a number; among typed events that is only \<open>retry: null\<close>, which the events returned by
  the decoder carry when no retry was read. The model writes \<open>null\<close> and \<open>undefined\<close>
  alike as \<open>None\<close>, so it follows the encoder on events whose \<open>retry\<close> is absent or a
  number, and the \<open>TypeError\<close> has no counterpart here.
\<close>

definition encodeServerSentEvent :: "ServerSentEvent \<Rightarrow> string \<Rightarrow> string \<Rightarrow> string" where
  "encodeServerSentEvent sse comment sep =
     (if truthy comment
      then concat (map (\<lambda>chunk. '': '' @ chunk @ sep) (split_LINE_SEP comment))
      else [])
     @ (case sse_id sse of
          None \<Rightarrow> []
        | Some i \<Rightarrow> ''id: '' @ replace_LINE_SEP i @ sep)
     @ (case sse_event sse of
          None \<Rightarrow> []
        | Some e \<Rightarrow> ''event: '' @ replace_LINE_SEP e @ sep)
     @ (case sse_data sse of
          None \<Rightarrow> []
        | Some d \<Rightarrow> concat (map (\<lambda>chunk. ''data: '' @ chunk @ sep) (split_LINE_SEP d)))
     @ (case sse_retry sse of
          None \<Rightarrow> []
        | Some r \<Rightarrow> ''retry: '' @ numberToString r @ sep)
     @ sep"

definition CRLF :: string where
  "CRLF = [CR, LF]"

text \<open>The event with every field absent.\<close>

definition emptySSE :: ServerSentEvent where
  "emptySSE = \<lparr>sse_data = None, sse_event = None, sse_id = None, sse_retry = None\<rparr>"

subsection \<open>The decoder\<close>

text \<open>\<open>xs.join(sep)\<close>.\<close>

fun join :: "string \<Rightarrow> string list \<Rightarrow> string" where
  "join sep [] = []"
| "join sep [x] = x"
| "join sep (x # y # ys) = x @ sep @ join sep (y # ys)"

text \<open>\<open>s.indexOf(c)\<close>: the position of the first occurrence; \<open>-1\<close> is \<open>None\<close>.\<close>

fun indexOf :: "char \<Rightarrow> string \<Rightarrow> nat option" where
  "indexOf c [] = None"
| "indexOf c (x # xs) = (if x = c then Some 0 else map_option Suc (indexOf c xs))"

definition startsWith :: "string \<Rightarrow> char \<Rightarrow> bool" where
  "startsWith s c = (case s of [] \<Rightarrow> False | x # _ \<Rightarrow> x = c)"

text \<open>
  White space of the language within the first 256 code units: what \<open>trim\<close> removes and
  what \<open>parseInt\<close> skips (tab, line feed, vertical tab, form feed, carriage return,
  space, no-break space).
\<close>

definition isWhiteSpace :: "char \<Rightarrow> bool" where
  "isWhiteSpace c = (of_char c \<in> {9, 10, 11, 12, 13, 32, 160 :: nat})"

definition isDecDigit :: "char \<Rightarrow> bool" where
  "isDecDigit c = (48 \<le> (of_char c :: nat) \<and> (of_char c :: nat) \<le> 57)"

definition isHexDigit :: "char \<Rightarrow> bool" where
  "isHexDigit c = (isDecDigit c
     \<or> (65 \<le> (of_char c :: nat) \<and> (of_char c :: nat) \<le> 70)
     \<or> (97 \<le> (of_char c :: nat) \<and> (of_char c :: nat) \<le> 102))"

definition digitValue :: "char \<Rightarrow> nat" where
  "digitValue c =
     (let n = (of_char c :: nat) in
      if n \<le> 57 then n - 48 else if n \<le> 70 then n - 55 else n - 87)"

definition digitsValue :: "int \<Rightarrow> string \<Rightarrow> int" where
  "digitsValue radix ds = foldl (\<lambda>acc c. acc * radix + int (digitValue c)) 0 ds"

text \<open>
  \<open>parseInt(s)\<close> with no radix: leading white space is skipped, one sign is read, a
  \<open>0x\<close> or \<open>0X\<close> prefix selects radix 16, the longest run of digits is read, and no
  digit at all gives \<open>NaN\<close>. The result is the Number value of the integer read, with
  its sign. (The language lets an engine replace the decimal digits after the 20th by
  zeros; the correctly rounded value is taken here.)
\<close>

definition parseInt :: "string \<Rightarrow> number" where
  "parseInt s =
     (let S = dropWhile isWhiteSpace s;
          neg = startsWith S (CHR ''-'');
          S1 = (if startsWith S (CHR ''-'') \<or> startsWith S (CHR ''+'') then drop 1 S else S);
          hex = (take 2 S1 = ''0x'' \<or> take 2 S1 = ''0X'');
          S2 = (if hex then drop 2 S1 else S1);
          Z = takeWhile (if hex then isHexDigit else isDecDigit) S2
      in if Z = [] then NaN else toNumber neg (digitsValue (if hex then 16 else 10) Z))"

text \<open>\<open>class SSEDecoder\<close>: the four private fields.\<close>

record SSEDecoder =
  dec_event :: string
  dec_data :: "string list"
  dec_lastEventId :: string
  dec_retry :: "number option"

definition newSSEDecoder :: SSEDecoder where
  "newSSEDecoder = \<lparr>dec_event = [], dec_data = [], dec_lastEventId = [], dec_retry = None\<rparr>"

definition extractFieldAndValue :: "string \<Rightarrow> string \<times> string" where
  "extractFieldAndValue line =
     (case indexOf (CHR '':'') line of
        None \<Rightarrow> (line, [])
      | Some index \<Rightarrow>
          (let fieldname = take index line;
               val = drop (index + 1) line
           in (fieldname, if startsWith val (CHR '' '') then drop 1 val else val)))"

text \<open>
  \<open>decode(line)\<close>: the returned event (\<open>null\<close> is \<open>None\<close>) and the decoder after the
  call. The field \<open>event\<close> of the decoder is a string, never null or undefined, so
  the \<open>??\<close> of the dispatch is applied to a present value.
\<close>

definition decode :: "SSEDecoder \<Rightarrow> string \<Rightarrow> ServerSentEvent option \<times> SSEDecoder" where
  "decode st line =
     (if \<not> truthy line then
        (if \<not> truthy (dec_event st) \<and> length (dec_data st) = 0
              \<and> \<not> truthy (dec_lastEventId st) \<and> dec_retry st = None
         then (None, st)
         else (Some \<lparr>sse_data = Some (join [LF] (dec_data st)),
                      sse_event = Some (nullish (Some (dec_event st)) ''message''),
                      sse_id = Some (dec_lastEventId st),
                      sse_retry = dec_retry st\<rparr>,
               st\<lparr>dec_event := [], dec_data := [], dec_retry := None\<rparr>))
      else if startsWith line (CHR '':'') then (None, st)
      else
        (case extractFieldAndValue line of (fieldname, val) \<Rightarrow>
          (None,
           if fieldname = ''event'' then st\<lparr>dec_event := val\<rparr>
           else if fieldname = ''data'' then st\<lparr>dec_data := dec_data st @ [val]\<rparr>
           else if fieldname = ''id'' then
             (if NUL \<notin> set val then st\<lparr>dec_lastEventId := val\<rparr> else st)
           else if fieldname = ''retry'' then
             (let retryValue = parseInt val
              in if \<not> isNaN retryValue then st\<lparr>dec_retry := Some retryValue\<rparr> else st)
           else st)))"

text \<open>A decoder fed a list of lines, one call of \<open>decode\<close> each: the events, in order, and the final state.\<close>

fun decodeLines :: "SSEDecoder \<Rightarrow> string list \<Rightarrow> ServerSentEvent list \<times> SSEDecoder" where
  "decodeLines st [] = ([], st)"
| "decodeLines st (l # ls) =
     (case decode st l of (r, st') \<Rightarrow>
       (case decodeLines st' ls of (evs, st'') \<Rightarrow>
         ((case r of None \<Rightarrow> [] | Some e \<Rightarrow> [e]) @ evs, st'')))"

text \<open>A line that is blank or a comment: no field of a record.\<close>

definition noFieldLine :: "string \<Rightarrow> bool" where
  "noFieldLine l = (l = [] \<or> startsWith l (CHR '':''))"

section \<open>The bot server: authentication\<close>

text \<open>
  \<open>class HTTPException\<close>: status code, message and the optional headers, as a list of
  name and value (\<open>undefined\<close> is the empty list).
\<close>

record HTTPException =
  statusCode :: nat
  message :: string
  headers :: "(string \<times> string) list"

text \<open>\<open>s.split(' ')\<close>: cut at every occurrence of the separator character.\<close>

fun split_char :: "char \<Rightarrow> string \<Rightarrow> string list" where
  "split_char sep [] = [[]]"
| "split_char sep (c # cs) =
     (if c = sep then [] # split_char sep cs
      else (case split_char sep cs of
              [] \<Rightarrow> [[c]]
            | l # ls \<Rightarrow> (c # l) # ls))"

text \<open>\<open>xs[i]\<close> on an array: \<open>undefined\<close> (\<open>None\<close>) out of range.\<close>

definition nth_opt :: "'a list \<Rightarrow> nat \<Rightarrow> 'a option" where
  "nth_opt xs i = (if i < length xs then Some (xs ! i) else None)"

text \<open>\<open>toLowerCase\<close> on the first 256 code units: the ASCII and the Latin-1 capitals.\<close>

definition toLowerCase_char :: "char \<Rightarrow> char" where
  "toLowerCase_char c =
     (let n = (of_char c :: nat) in
      if (65 \<le> n \<and> n \<le> 90) \<or> (192 \<le> n \<and> n \<le> 222 \<and> n \<noteq> 215)
      then char_of (n + 32) else c)"

definition toLowerCase :: "string \<Rightarrow> string" where
  "toLowerCase s = map toLowerCase_char s"

text \<open>
  \<open>extractAuthorization(req)\<close>, on the value of the request's \<open>authorization\<close> header
  (\<open>None\<close> when the request has none): the exception thrown, or scheme and credentials.
\<close>

definition extractAuthorization :: "string option \<Rightarrow> HTTPException + (string \<times> string)" where
  "extractAuthorization authorization =
     (let parts = (case authorization of
                     None \<Rightarrow> []
                   | Some a \<Rightarrow> if truthy a then split_char (CHR '' '') a else []);
          scheme = nth_opt parts 0;
          credentials = nth_opt parts 1
      in if \<not> truthy_opt authorization \<or> \<not> truthy_opt scheme \<or> \<not> truthy_opt credentials
         then Inl \<lparr>statusCode = 403, message = ''Not authenticated'', headers = []\<rparr>
         else if toLowerCase (nullish scheme []) \<noteq> ''bearer''
         then Inl \<lparr>statusCode = 403, message = ''Invalid authorization credentials'', headers = []\<rparr>
         else Inr (nullish scheme [], nullish credentials []))"

text \<open>
  The first \<open>app.post(bot.path, ...)\<close> handler of \<open>addRoutesForBot\<close>, on the bot's
  \<open>accessKey\<close> (\<open>null\<close> is \<open>None\<close>) and the request's \<open>authorization\<close> header:
  \<open>Inr ()\<close> is the call of \<open>next()\<close>, \<open>Inl\<close> the exception thrown. The handler is an
  \<open>async\<close> function, so the exception is the rejection of the promise it returns; the
  handler itself writes nothing to the response.
\<close>

definition authRoute :: "string option \<Rightarrow> string option \<Rightarrow> HTTPException + unit" where
  "authRoute accessKey authorization =
     (if \<not> truthy_opt accessKey then Inr ()
      else (case extractAuthorization authorization of
              Inl e \<Rightarrow> Inl e
            | Inr (scheme, credentials) \<Rightarrow>
                if scheme \<noteq> ''Bearer'' \<or> Some credentials \<noteq> accessKey
                then Inl \<lparr>statusCode = 401, message = ''Invalid access key'',
                          headers = [(''WWW-Authenticate'', ''Bearer'')]\<rparr>
                else Inr ()))"

subsection \<open>From the exception to the response\<close>

text \<open>
  What the program puts on the response object: the status, the headers it sets itself
  (those the framework adds on its own, such as \<open>Content-Type\<close>, are not listed) and
  the body.
\<close>

record HttpResponse =
  res_status :: nat
  res_headers :: "(string \<times> string) list"
  res_body :: string

text \<open>An error handed to an error middleware: an \<open>HTTPException\<close> or another error.\<close>

datatype PassedError = IsHTTPException HTTPException | OtherError

text \<open>
  The error middleware of \<open>makeApp\<close>, the only place of the program that turns an
  \<open>HTTPException\<close> into a response: \<open>res.status(error.statusCode).send(error.message)\<close>,
  and status 500 for any other error. It does not read \<open>error.headers\<close>.
\<close>

definition errorMiddleware :: "PassedError \<Rightarrow> HttpResponse" where
  "errorMiddleware error =
     (case error of
        IsHTTPException e \<Rightarrow> \<lparr>res_status = statusCode e, res_headers = [], res_body = message e\<rparr>
      | OtherError \<Rightarrow> \<lparr>res_status = 500, res_headers = [], res_body = ''Internal server error''\<rparr>)"

text \<open>
  The layers \<open>makeApp\<close> puts on the app for one bot, in the order of registration:
  \<open>app.use(express.json())\<close>, \<open>app.use\<close> of the error middleware, and then, by
  \<open>addRoutesForBot\<close>, \<open>app.get(bot.path, ...)\<close>, the \<open>app.post(bot.path, ...)\<close> of the
  authentication handler and the \<open>app.post(bot.path, ...)\<close> of the request handler.
\<close>

datatype Layer = UseJson | UseErrorMiddleware | GetRoute | PostAuthRoute | PostRoute

definition makeApp :: "Layer list" where
  "makeApp = [UseJson, UseErrorMiddleware, GetRoute, PostAuthRoute, PostRoute]"

text \<open>
  What becomes of a request: the program writes a response; the request reaches the
  request handler of the bot; the promise of an \<open>async\<close> handler is rejected and nothing
  is written; or the stack is exhausted and the request (with the pending error, if any)
  is left to the final handler of the framework.
\<close>

datatype Outcome =
    Responds HttpResponse
  | RequestHandler
  | Unanswered HTTPException
  | FinalHandler "PassedError option"

text \<open>
  The walk of Express 4 (the version of \<open>package.json\<close>, \<open>express ^4.19.2\<close>) through the
  layers, for a \<open>POST\<close> on the path of the bot whose JSON body parses, with the error
  pending so far. A middleware of four parameters is called only with an error pending
  and one of fewer parameters only without; a route is skipped when an error is pending
  or the method differs. Express 4 calls a handler inside \<open>try\<close>/\<open>catch\<close> and drops what
  it returns: the rejection of the promise of an \<open>async\<close> handler reaches neither
  \<open>next\<close> nor an error middleware.
\<close>

fun express4_next :: "string option \<Rightarrow> string option \<Rightarrow> PassedError option \<Rightarrow> Layer list \<Rightarrow> Outcome" where
  "express4_next accessKey authorization err [] = FinalHandler err"
| "express4_next accessKey authorization err (UseJson # ls) =
     express4_next accessKey authorization err ls"
| "express4_next accessKey authorization err (UseErrorMiddleware # ls) =
     (case err of
        None \<Rightarrow> express4_next accessKey authorization None ls
      | Some e \<Rightarrow> Responds (errorMiddleware e))"
| "express4_next accessKey authorization err (GetRoute # ls) =
     express4_next accessKey authorization err ls"
| "express4_next accessKey authorization err (PostAuthRoute # ls) =
     (case err of
        Some e \<Rightarrow> express4_next accessKey authorization err ls
      | None \<Rightarrow>
          (case authRoute accessKey authorization of
             Inr u \<Rightarrow> express4_next accessKey authorization None ls
           | Inl e \<Rightarrow> Unanswered e))"
| "express4_next accessKey authorization err (PostRoute # ls) =
     (case err of
        Some e \<Rightarrow> express4_next accessKey authorization err ls
      | None \<Rightarrow> RequestHandler)"

text \<open>A \<open>POST\<close> on the path of a bot served by \<open>makeApp\<close>.\<close>

definition postRequest :: "string option \<Rightarrow> string option \<Rightarrow> Outcome" where
  "postRequest accessKey authorization = express4_next accessKey authorization None makeApp"

text \<open>
  Vocabulary for the decoder's properties: the accumulators of a record are in their
  reset state, and the decoder reached from a fresh one by a history of lines.
\<close>

definition accumulatorsReset :: "SSEDecoder \<Rightarrow> bool" where
  "accumulatorsReset st = (dec_event st = [] \<and> dec_data st = [] \<and> dec_retry st = None)"

definition afterLines :: "string list \<Rightarrow> SSEDecoder" where
  "afterLines ls = snd (decodeLines newSSEDecoder ls)"

section \<open>JSON values\<close>

text \<open>
  A parsed JSON value. An object is the list of its entries in insertion order; a number
  is an integer here (no claim reads a fraction).
\<close>

datatype json =
    JNull
  | JBool bool
  | JNumber int
  | JString string
  | JArray "json list"
  | JObject "(string \<times> json) list"

text \<open>\<open>obj[key]\<close> on a parsed value that is not null: \<open>undefined\<close> is \<open>None\<close>.\<close>

definition getField :: "json \<Rightarrow> string \<Rightarrow> json option" where
  "getField j k = (case j of JObject kvs \<Rightarrow> map_of kvs k | _ \<Rightarrow> None)"

text \<open>\<open>typeof v === 'object' && v !== null\<close>.\<close>

definition isObjectJ :: "json \<Rightarrow> bool" where
  "isObjectJ j = (case j of JObject _ \<Rightarrow> True | JArray _ \<Rightarrow> True | _ \<Rightarrow> False)"

text \<open>\<open>v ?? d\<close> on a property that may be undefined or null.\<close>

definition nullishJ :: "json option \<Rightarrow> json \<Rightarrow> json" where
  "nullishJ v d = (case v of None \<Rightarrow> d | Some JNull \<Rightarrow> d | Some w \<Rightarrow> w)"

text \<open>Truthiness of a JSON value.\<close>

definition truthyJ :: "json \<Rightarrow> bool" where
  "truthyJ j =
     (case j of
        JNull \<Rightarrow> False
      | JBool b \<Rightarrow> b
      | JNumber n \<Rightarrow> n \<noteq> 0
      | JString s \<Rightarrow> s \<noteq> []
      | _ \<Rightarrow> True)"

section \<open>The bot client\<close>

subsection \<open>Thrown values\<close>

text \<open>
  What a \<open>catch\<close> of the client can receive: an \<open>Error\<close> object, with the fields the
  retry loop inspects, or a value that is not an instance of \<open>Error\<close>.
\<close>

record ErrorObj =
  err_name :: string
  err_message :: string
  err_isAxiosError :: bool
  err_code :: "string option"

datatype thrown = ErrorValue ErrorObj | NonErrorValue

definition BotError :: "string \<Rightarrow> thrown" where
  "BotError msg =
     ErrorValue \<lparr>err_name = ''BotError'', err_message = msg, err_isAxiosError = False, err_code = None\<rparr>"

definition BotErrorNoRetry :: "string \<Rightarrow> thrown" where
  "BotErrorNoRetry msg =
     ErrorValue \<lparr>err_name = ''BotErrorNoRetry'', err_message = msg, err_isAxiosError = False, err_code = None\<rparr>"

definition isBotErrorNoRetry :: "thrown \<Rightarrow> bool" where
  "isBotErrorNoRetry e = (case e of ErrorValue x \<Rightarrow> err_name x = ''BotErrorNoRetry'' | NonErrorValue \<Rightarrow> False)"

definition isError :: "thrown \<Rightarrow> bool" where
  "isError e = (case e of ErrorValue _ \<Rightarrow> True | NonErrorValue \<Rightarrow> False)"

text \<open>\<open>isAxiosError(e) && (e as AxiosError).code === 'ECONNABORTED'\<close>.\<close>

definition allowRetryAfterResponse :: "thrown \<Rightarrow> bool" where
  "allowRetryAfterResponse e =
     (case e of
        ErrorValue x \<Rightarrow> err_isAxiosError x \<and> err_code x = Some ''ECONNABORTED''
      | NonErrorValue \<Rightarrow> False)"

subsection \<open>The retry loop of \<open>streamRequestBase\<close>\<close>

text \<open>
  One call of \<open>performQueryRequest\<close> as the loop sees it: the messages it yields and how
  it ends (\<open>None\<close>: it returns; \<open>Some e\<close>: it throws \<open>e\<close>).
\<close>

record 'm attempt =
  yielded :: "'m list"
  outcome :: "thrown option"

text \<open>
  What the caller of \<open>streamRequestBase\<close> observes: the messages it receives, the number
  of calls of \<open>performQueryRequest\<close>, the tries on which \<open>onError\<close> was called, and the
  end of the generator (\<open>None\<close>: it returns; \<open>Some e\<close>: it throws \<open>e\<close>).
\<close>

record 'm streamResult =
  messages :: "'m list"
  calls :: nat
  onErrorTries :: "nat list"
  raised :: "thrown option"

definition communicationError :: "string \<Rightarrow> thrown" where
  "communicationError botName = BotError (''Error communicating with bot '' @ botName)"

text \<open>
  The \<open>for (let i = 0; i < numTries; i++)\<close> loop from iteration \<open>i\<close>, with the current
  \<open>gotResponse\<close>; \<open>perform i\<close> is the call made on iteration \<open>i\<close>. The flag is set by
  every message yielded and is never cleared. A thrown value that is not an \<open>Error\<close>
  falls through the \<open>catch\<close> and the loop goes on. The sleep between tries is not
  modelled.
\<close>

function retryLoop :: "nat \<Rightarrow> string \<Rightarrow> (nat \<Rightarrow> 'm attempt) \<Rightarrow> nat \<Rightarrow> bool \<Rightarrow> 'm streamResult" where
  "retryLoop numTries botName perform i gotResponse =
     (if i < numTries then
        (let a = perform i;
             got = (gotResponse \<or> yielded a \<noteq> [])
         in case outcome a of
              None \<Rightarrow> \<lparr>messages = yielded a, calls = 1, onErrorTries = [], raised = None\<rparr>
            | Some e \<Rightarrow>
                if isBotErrorNoRetry e
                then \<lparr>messages = yielded a, calls = 1, onErrorTries = [], raised = Some e\<rparr>
                else if isError e then
                  (if (got \<and> \<not> allowRetryAfterResponse e) \<or> i = numTries - 1
                   then \<lparr>messages = yielded a, calls = 1, onErrorTries = [i],
                          raised = Some (communicationError botName)\<rparr>
                   else (let r = retryLoop numTries botName perform (Suc i) got
                         in r\<lparr>messages := yielded a @ messages r, calls := Suc (calls r),
                              onErrorTries := i # onErrorTries r\<rparr>))
                else (let r = retryLoop numTries botName perform (Suc i) got
                      in r\<lparr>messages := yielded a @ messages r, calls := Suc (calls r)\<rparr>))
      else \<lparr>messages = [], calls = 0, onErrorTries = [], raised = None\<rparr>)"
  by pat_completeness auto
termination
  by (relation "measure (\<lambda>(numTries, botName, perform, i, gotResponse). numTries - i)") auto

definition streamRequestBase :: "nat \<Rightarrow> string \<Rightarrow> (nat \<Rightarrow> 'm attempt) \<Rightarrow> 'm streamResult" where
  "streamRequestBase numTries botName perform = retryLoop numTries botName perform 0 False"

text \<open>An error that the loop may retry: an \<open>Error\<close> that is not a \<open>BotErrorNoRetry\<close>.\<close>

definition transient :: "thrown \<Rightarrow> bool" where
  "transient e = (isError e \<and> \<not> isBotErrorNoRetry e)"

subsection \<open>The client state machine of \<open>performQueryRequest\<close>\<close>

text \<open>
  \<open>PartialResponse\<close> and its specialisation \<open>MetaResponse\<close> as the objects the client
  yields: a property the object literal does not set is \<open>None\<close>.
\<close>

record PartialResponse =
  pr_text :: string
  pr_data :: "json option"
  pr_rawResponse :: "json option"
  pr_fullPrompt :: "string option"
  pr_isSuggestedReply :: "bool option"
  pr_isReplaceResponse :: "bool option"
  pr_linkify :: "bool option"
  pr_suggestedReplies :: "bool option"
  pr_contentType :: "string option"

text \<open>
  What the call depends on outside the repository: \<open>JSON.parse\<close> (\<open>None\<close>: it throws a
  \<open>SyntaxError\<close>), the back-channel POST of \<open>reportError\<close> for a given message
  (\<open>None\<close>: it succeeds; \<open>Some e\<close>: it throws \<open>e\<close>), whether \<open>tools\<close> were passed, and
  the serialised payload.
\<close>

record clientEnv =
  env_parse :: "string \<Rightarrow> json option"
  env_post :: "string \<Rightarrow> thrown option"
  env_hasTools :: bool
  env_fullPrompt :: string

text \<open>
  The local variables \<open>chunks\<close>, \<open>eventCount\<close> and \<open>errorReported\<close>, and the messages
  passed to \<open>reportError\<close> so far.
\<close>

record clientState =
  chunks :: "string list"
  eventCount :: nat
  errorReported :: bool
  reports :: "string list"

definition initialClientState :: clientState where
  "initialClientState = \<lparr>chunks = [], eventCount = 0, errorReported = False, reports = []\<rparr>"

definition reportError :: "clientEnv \<Rightarrow> string \<Rightarrow> clientState \<Rightarrow> thrown option \<times> clientState" where
  "reportError env msg st = (env_post env msg, st\<lparr>reports := reports st @ [msg]\<rparr>)"

text \<open>\<open>JSON.parse(data)\<close> on \<open>sse.data!\<close>: an undefined \<open>data\<close> is no JSON text.\<close>

definition parseData :: "clientEnv \<Rightarrow> string option \<Rightarrow> json option" where
  "parseData env d = (case d of None \<Rightarrow> None | Some s \<Rightarrow> env_parse env s)"

definition syntaxError :: thrown where
  "syntaxError =
     ErrorValue \<lparr>err_name = ''SyntaxError'', err_message = [], err_isAxiosError = False, err_code = None\<rparr>"

definition typeError :: thrown where
  "typeError =
     ErrorValue \<lparr>err_name = ''TypeError'', err_message = [], err_isAxiosError = False, err_code = None\<rparr>"

text \<open>
  \<open>loadJsonDict\<close>. The \<open>BotError\<close> thrown inside the \<open>try\<close> for a value that is not an
  object is caught by the \<open>catch\<close> of the same function, as a failure of the first report
  is, so both paths end in the second report and \<open>BotErrorNoRetry\<close>.
\<close>

definition loadJsonDict :: "clientEnv \<Rightarrow> string option \<Rightarrow> string \<Rightarrow> clientState \<Rightarrow> (thrown + json) \<times> clientState" where
  "loadJsonDict env d context st =
     (let invalid = (\<lambda>s.
            (case reportError env (''Invalid JSON in '' @ context @ '' event'') s of
               (None, s') \<Rightarrow> (Inl (BotErrorNoRetry (''Invalid JSON in '' @ context @ '' event'')), s')
             | (Some e, s') \<Rightarrow> (Inl e, s')))
      in case parseData env d of
           None \<Rightarrow> invalid st
         | Some parsed \<Rightarrow>
             if \<not> isObjectJ parsed
             then invalid (snd (reportError env (''Expected JSON dict in '' @ context @ '' event'') st))
             else (Inr parsed, st))"

definition getSingleJsonField :: "clientEnv \<Rightarrow> string option \<Rightarrow> string \<Rightarrow> clientState \<Rightarrow> (thrown + string) \<times> clientState" where
  "getSingleJsonField env d context st =
     (case loadJsonDict env d context st of
        (Inl e, st1) \<Rightarrow> (Inl e, st1)
      | (Inr dataDict, st1) \<Rightarrow>
          (case getField dataDict ''text'' of
             Some (JString t) \<Rightarrow> (Inr t, st1)
           | _ \<Rightarrow>
               (case reportError env (''Expected string in 'text' field for '' @ [CHR 0x27] @ context @ [CHR 0x27] @ '' event'') st1 of
                  (None, st2) \<Rightarrow> (Inl (BotErrorNoRetry (''Expected string in '' @ [CHR 0x27] @ context @ [CHR 0x27] @ '' event'')), st2)
                | (Some e, st2) \<Rightarrow> (Inl e, st2))))"

text \<open>
  \<open>s.slice(0, end)\<close>: a negative \<open>end\<close> counts from the end of the string, and the
  result is empty when that falls before the start.
\<close>

definition slice0 :: "string \<Rightarrow> int \<Rightarrow> string" where
  "slice0 s e = (if e < 0 then take (nat (int (length s) + e)) s else take (nat e) s)"

text \<open>\<open>safeEllipsis\<close> on a string, with an integer limit.\<close>

definition safeEllipsis :: "string \<Rightarrow> int \<Rightarrow> string" where
  "safeEllipsis v limit =
     (if int (length v) > limit then slice0 v (limit - 3) @ ''...'' else v)"

text \<open>\<open>{ type: sse.event, text: sse.data }\<close>.\<close>

definition rawOf :: "string \<Rightarrow> string option \<Rightarrow> json" where
  "rawOf ev d = JObject ((''type'', JString ev) # (case d of None \<Rightarrow> [] | Some s \<Rightarrow> [(''text'', JString s)]))"

definition textResponse :: "clientEnv \<Rightarrow> string \<Rightarrow> string \<Rightarrow> string option \<Rightarrow> bool \<Rightarrow> bool \<Rightarrow> PartialResponse" where
  "textResponse env t ev d suggested replace =
     \<lparr>pr_text = t, pr_data = None, pr_rawResponse = Some (rawOf ev d),
      pr_fullPrompt = Some (env_fullPrompt env),
      pr_isSuggestedReply = Some suggested, pr_isReplaceResponse = Some replace,
      pr_linkify = None, pr_suggestedReplies = None, pr_contentType = None\<rparr>"

text \<open>How the body of the \<open>for await\<close> loop ends for one event.\<close>

datatype control = Continue | Return | Throw thrown

text \<open>
  The branches of the loop body, one definition per \<open>sse.event\<close> value, each on the
  state after \<open>eventCount += 1\<close>: the responses yielded, how the iteration ends, and
  the state after it.
\<close>

definition doneBranch :: "clientEnv \<Rightarrow> clientState \<Rightarrow> (PartialResponse list \<times> control) \<times> clientState" where
  "doneBranch env st =
     (if chunks st = [] \<and> \<not> errorReported st \<and> \<not> env_hasTools env
      then (case reportError env ''Bot returned no text in response'' st of
              (None, st1) \<Rightarrow> (([], Return), st1)
            | (Some e, st1) \<Rightarrow> (([], Throw e), st1))
      else (([], Return), st))"

definition textBranch :: "clientEnv \<Rightarrow> clientState \<Rightarrow> ServerSentEvent \<Rightarrow> (PartialResponse list \<times> control) \<times> clientState" where
  "textBranch env st sse =
     (case getSingleJsonField env (sse_data sse) ''text'' st of
        (Inl e, st1) \<Rightarrow> (([], Throw e), st1)
      | (Inr t, st1) \<Rightarrow>
          (([textResponse env t ''text'' (sse_data sse) False False], Continue),
           st1\<lparr>chunks := chunks st1 @ [t]\<rparr>))"

definition replaceBranch :: "clientEnv \<Rightarrow> clientState \<Rightarrow> ServerSentEvent \<Rightarrow> (PartialResponse list \<times> control) \<times> clientState" where
  "replaceBranch env st sse =
     (case getSingleJsonField env (sse_data sse) ''replace_response'' st of
        (Inl e, st1) \<Rightarrow> (([], Throw e), st1)
      | (Inr t, st1) \<Rightarrow>
          (([textResponse env t ''replace_response'' (sse_data sse) False True], Continue),
           st1\<lparr>chunks := [t]\<rparr>))"

definition suggestedBranch :: "clientEnv \<Rightarrow> clientState \<Rightarrow> ServerSentEvent \<Rightarrow> (PartialResponse list \<times> control) \<times> clientState" where
  "suggestedBranch env st sse =
     (case getSingleJsonField env (sse_data sse) ''suggested_reply'' st of
        (Inl e, st1) \<Rightarrow> (([], Throw e), st1)
      | (Inr t, st1) \<Rightarrow>
          (([textResponse env t ''suggested_reply'' (sse_data sse) True False], Continue), st1))"

definition jsonBranch :: "clientEnv \<Rightarrow> clientState \<Rightarrow> ServerSentEvent \<Rightarrow> (PartialResponse list \<times> control) \<times> clientState" where
  "jsonBranch env st sse =
     (case parseData env (sse_data sse) of
        None \<Rightarrow> (([], Throw syntaxError), st)
      | Some parsed \<Rightarrow>
          (([\<lparr>pr_text = [], pr_data = Some parsed, pr_rawResponse = None,
               pr_fullPrompt = Some (env_fullPrompt env),
               pr_isSuggestedReply = Some False, pr_isReplaceResponse = Some False,
               pr_linkify = None, pr_suggestedReplies = None, pr_contentType = None\<rparr>], Continue), st))"

text \<open>A \<open>meta\<close> field of the wrong type: report, set \<open>errorReported\<close>, \<open>continue\<close>.\<close>

definition invalidMeta :: "clientEnv \<Rightarrow> string \<Rightarrow> clientState \<Rightarrow> (PartialResponse list \<times> control) \<times> clientState" where
  "invalidMeta env field st =
     (case reportError env (''Invalid '' @ field @ '' value in 'meta' event'') st of
        (None, st1) \<Rightarrow> (([], Continue), st1\<lparr>errorReported := True\<rparr>)
      | (Some e, st1) \<Rightarrow> (([], Throw e), st1))"

definition metaResponse :: "clientEnv \<Rightarrow> json \<Rightarrow> bool \<Rightarrow> bool \<Rightarrow> string \<Rightarrow> PartialResponse" where
  "metaResponse env d linkify sendSuggestedReplies contentType =
     \<lparr>pr_text = [], pr_data = None, pr_rawResponse = Some d,
      pr_fullPrompt = Some (env_fullPrompt env),
      pr_isSuggestedReply = None, pr_isReplaceResponse = None,
      pr_linkify = Some linkify,
      pr_suggestedReplies = Some sendSuggestedReplies,
      pr_contentType = Some contentType\<rparr>"

definition metaBranch :: "clientEnv \<Rightarrow> clientState \<Rightarrow> ServerSentEvent \<Rightarrow> (PartialResponse list \<times> control) \<times> clientState" where
  "metaBranch env st sse =
     (if eventCount st \<noteq> 1 then (([], Continue), st)
      else
        (case loadJsonDict env (sse_data sse) ''meta'' st of
           (Inl e, st1) \<Rightarrow> (([], Throw e), st1)
         | (Inr d, st1) \<Rightarrow>
             (case nullishJ (getField d ''linkify'') (JBool False) of
                JBool linkify \<Rightarrow>
                  (case nullishJ (getField d ''suggested_replies'') (JBool False) of
                     JBool sendSuggestedReplies \<Rightarrow>
                       (case nullishJ (getField d ''content_type'') (JString ''text/markdown'') of
                          JString contentType \<Rightarrow>
                            (([metaResponse env d linkify sendSuggestedReplies contentType], Continue), st1)
                        | _ \<Rightarrow> invalidMeta env ''content_type'' st1)
                   | _ \<Rightarrow> invalidMeta env ''suggested_replies'' st1)
              | _ \<Rightarrow> invalidMeta env ''linkify'' st1)))"

definition errorBranch :: "clientEnv \<Rightarrow> clientState \<Rightarrow> ServerSentEvent \<Rightarrow> (PartialResponse list \<times> control) \<times> clientState" where
  "errorBranch env st sse =
     (case loadJsonDict env (sse_data sse) ''error'' st of
        (Inl e, st1) \<Rightarrow> (([], Throw e), st1)
      | (Inr d, st1) \<Rightarrow>
          if truthyJ (nullishJ (getField d ''allow_retry'') (JBool True))
          then (([], Throw (BotError (nullish (sse_data sse) []))), st1)
          else (([], Throw (BotErrorNoRetry (nullish (sse_data sse) []))), st1))"

text \<open>
  The final \<open>else\<close>: \<open>safeEllipsis\<close> of an undefined \<open>event\<close> or \<open>data\<close> reads
  \<open>length\<close> of \<open>undefined\<close> and throws before anything is reported.
\<close>

definition unknownBranch :: "clientEnv \<Rightarrow> clientState \<Rightarrow> ServerSentEvent \<Rightarrow> (PartialResponse list \<times> control) \<times> clientState" where
  "unknownBranch env st sse =
     (case (sse_event sse, sse_data sse) of
        (Some ev, Some d) \<Rightarrow>
          (case reportError env (''Unknown event type: '' @ safeEllipsis ev 100) st of
             (None, st1) \<Rightarrow> (([], Continue), st1\<lparr>errorReported := True\<rparr>)
           | (Some e, st1) \<Rightarrow> (([], Throw e), st1))
      | _ \<Rightarrow> (([], Throw typeError), st))"

text \<open>One iteration of the \<open>for await (const sse of eventSource.iterSSE())\<close> loop.\<close>

definition clientStep :: "clientEnv \<Rightarrow> clientState \<Rightarrow> ServerSentEvent \<Rightarrow> (PartialResponse list \<times> control) \<times> clientState" where
  "clientStep env st0 sse =
     (let st = st0\<lparr>eventCount := eventCount st0 + 1\<rparr> in
      if sse_event sse = Some ''done'' then doneBranch env st
      else if sse_event sse = Some ''text'' then textBranch env st sse
      else if sse_event sse = Some ''replace_response'' then replaceBranch env st sse
      else if sse_event sse = Some ''suggested_reply'' then suggestedBranch env st sse
      else if sse_event sse = Some ''json'' then jsonBranch env st sse
      else if sse_event sse = Some ''meta'' then metaBranch env st sse
      else if sse_event sse = Some ''error'' then errorBranch env st sse
      else if sse_event sse = Some ''ping'' then (([], Continue), st)
      else unknownBranch env st sse)"

text \<open>
  The loop over the events of the stream, in wire order: it stops at the first iteration
  that returns or throws; \<open>Continue\<close> at the end means the events ran out.
\<close>

fun clientLoop :: "clientEnv \<Rightarrow> clientState \<Rightarrow> ServerSentEvent list \<Rightarrow> (PartialResponse list \<times> control) \<times> clientState" where
  "clientLoop env st [] = (([], Continue), st)"
| "clientLoop env st (sse # rest) =
     (case clientStep env st sse of
        ((ys, Continue), st1) \<Rightarrow>
          (case clientLoop env st1 rest of ((zs, c), st2) \<Rightarrow> ((ys @ zs, c), st2))
      | ((ys, c), st1) \<Rightarrow> ((ys, c), st1))"

text \<open>
  \<open>performQueryRequest\<close> on the events the response stream delivers and the way the
  stream ends (\<open>Some e\<close>: the transport throws \<open>e\<close> after the last event; a failure of the
  POST itself or of the content-type check is the case of no event). The result is the
  call as \<open>streamRequestBase\<close> sees it.
\<close>

definition performQueryRequest :: "clientEnv \<Rightarrow> ServerSentEvent list \<Rightarrow> thrown option \<Rightarrow> PartialResponse attempt" where
  "performQueryRequest env events streamEnd =
     (case clientLoop env initialClientState events of
        ((ys, Continue), st) \<Rightarrow>
          (case streamEnd of
             Some e \<Rightarrow> \<lparr>yielded = ys, outcome = Some e\<rparr>
           | None \<Rightarrow>
               \<lparr>yielded = ys,
                outcome = fst (reportError env ''Bot exited without sending 'done' event'' st)\<rparr>)
      | ((ys, Return), st) \<Rightarrow> \<lparr>yielded = ys, outcome = None\<rparr>
      | ((ys, Throw e), st) \<Rightarrow> \<lparr>yielded = ys, outcome = Some e\<rparr>)"

subsection \<open>\<open>getFinalResponse\<close>\<close>

definition isMetaMessage :: "PartialResponse \<Rightarrow> bool" where
  "isMetaMessage m = (pr_suggestedReplies m \<noteq> None)"

text \<open>The body of the \<open>for await\<close> loop of \<open>getFinalResponse\<close> on its local \<open>chunks\<close>.\<close>

definition finalStep :: "string list \<Rightarrow> PartialResponse \<Rightarrow> string list" where
  "finalStep cs m =
     (if isMetaMessage m then cs
      else if pr_isSuggestedReply m = Some True then cs
      else (if pr_isReplaceResponse m = Some True then [] else cs) @ [pr_text m])"

text \<open>
  \<open>getFinalResponse\<close> with no tools: \<open>streamRequest\<close> forwards the messages of
  \<open>streamRequestBase\<close>; an exception of the stream ends the call.
\<close>

definition getFinalResponse :: "nat \<Rightarrow> string \<Rightarrow> (nat \<Rightarrow> PartialResponse attempt) \<Rightarrow> thrown + string" where
  "getFinalResponse numTries botName perform =
     (let r = streamRequestBase numTries botName perform;
          cs = foldl finalStep [] (messages r)
      in case raised r of
           Some e \<Rightarrow> Inl e
         | None \<Rightarrow>
             if length cs = 0 then Inl (BotError (''Bot '' @ botName @ '' sent no response''))
             else Inr (concat cs))"

subsection \<open>Example streams\<close>

text \<open>
  Concrete inputs for the client: an event with the given name and data, and an
  environment whose \<open>JSON.parse\<close> is given by a table of the payloads in use, whose
  back-channel POST succeeds, and which has no tools.
\<close>

definition sseOf :: "string \<Rightarrow> string \<Rightarrow> ServerSentEvent" where
  "sseOf ev d = emptySSE\<lparr>sse_event := Some ev, sse_data := Some d\<rparr>"

definition tableEnv :: "(string \<times> json) list \<Rightarrow> clientEnv" where
  "tableEnv table =
     \<lparr>env_parse = map_of table, env_post = (\<lambda>msg. None), env_hasTools = False, env_fullPrompt = ''{}''\<rparr>"

section \<open>The tool orchestrator: collecting tool calls\<close>

text \<open>
  The values the \<open>arguments\<close> property of a collected call can hold: a delta carries
  a string or leaves the property out, and \<open>+=\<close> on two undefined operands gives \<open>NaN\<close>.
\<close>

datatype argval = Undefined | Str string | NaN



















section \<open>The bot server: events of a query\<close>

subsection \<open>Serialisation\<close>

text \<open>\<open>camelToSnakeCase\<close>: every letter \<open>A\<close> to \<open>Z\<close> becomes an underscore and its lower case.\<close>

definition camelToSnakeCase :: "string \<Rightarrow> string" where
  "camelToSnakeCase s =
     concat (map (\<lambda>c. if 65 \<le> (of_char c :: nat) \<and> (of_char c :: nat) \<le> 90
                        then [CHR ''_'', toLowerCase_char c] else [c]) s)"

text \<open>
  \<open>modelDump(obj)\<close> with \<open>deepDump = true\<close> on a JSON-like value: the keys of every
  object are converted, in insertion order, a later entry with the same converted key
  overwriting the earlier one in place.
\<close>

fun modelDump :: "json \<Rightarrow> json"
  and modelDumpList :: "json list \<Rightarrow> json list"
  and modelDumpEntries :: "(string \<times> json) list \<Rightarrow> (string \<times> json) list \<Rightarrow> (string \<times> json) list" where
  "modelDump (JArray xs) = JArray (modelDumpList xs)"
| "modelDump (JObject kvs) = JObject (modelDumpEntries [] kvs)"
| "modelDump JNull = JNull"
| "modelDump (JBool b) = JBool b"
| "modelDump (JNumber n) = JNumber n"
| "modelDump (JString s) = JString s"
| "modelDumpList [] = []"
| "modelDumpList (x # xs) = modelDump x # modelDumpList xs"
| "modelDumpEntries acc [] = acc"
| "modelDumpEntries acc (kv # kvs) =
     modelDumpEntries (AList.update (camelToSnakeCase (fst kv)) (modelDump (snd kv)) acc) kvs"

text \<open>
  \<open>JSON.stringify\<close> on a JSON value, with no indentation: strings are quoted, with the
  quote, the backslash and the control characters escaped.
\<close>

definition hexDigit :: "nat \<Rightarrow> char" where
  "hexDigit d = (if d < 10 then char_of (48 + d) else char_of (87 + d))"

definition escapeChar :: "char \<Rightarrow> string" where
  "escapeChar c =
     (let n = (of_char c :: nat) in
      if n = 34 then [CHR 0x5C, CHR 0x22]
      else if n = 92 then [CHR 0x5C, CHR 0x5C]
      else if n = 8 then [CHR 0x5C, CHR ''b'']
      else if n = 12 then [CHR 0x5C, CHR ''f'']
      else if n = 10 then [CHR 0x5C, CHR ''n'']
      else if n = 13 then [CHR 0x5C, CHR ''r'']
      else if n = 9 then [CHR 0x5C, CHR ''t'']
      else if n < 32 then [CHR 0x5C, CHR ''u'', CHR ''0'', CHR ''0'', hexDigit (n div 16), hexDigit (n mod 16)]
      else [c])"

definition quoteJSON :: "string \<Rightarrow> string" where
  "quoteJSON s = [CHR 0x22] @ concat (map escapeChar s) @ [CHR 0x22]"

fun stringify :: "json \<Rightarrow> string"
  and stringifyList :: "json list \<Rightarrow> string list"
  and stringifyEntries :: "(string \<times> json) list \<Rightarrow> string list" where
  "stringify JNull = ''null''"
| "stringify (JBool b) = (if b then ''true'' else ''false'')"
| "stringify (JNumber n) = numberToString (Finite n)"
| "stringify (JString s) = quoteJSON s"
| "stringify (JArray xs) = ''['' @ join '','' (stringifyList xs) @ '']''"
| "stringify (JObject kvs) = ''{'' @ join '','' (stringifyEntries kvs) @ ''}''"
| "stringifyList [] = []"
| "stringifyList (x # xs) = stringify x # stringifyList xs"
| "stringifyEntries [] = []"
| "stringifyEntries (kv # kvs) = (quoteJSON (fst kv) @ '':'' @ stringify (snd kv)) # stringifyEntries kvs"

subsection \<open>The event helpers of \<open>PoeBot\<close>\<close>

definition textEvent :: "string \<Rightarrow> ServerSentEvent" where
  "textEvent t =
     \<lparr>sse_data = Some (stringify (JObject [(''text'', JString t)])), sse_event = Some ''text'',
      sse_id = None, sse_retry = None\<rparr>"

definition replaceResponseEvent :: "string \<Rightarrow> ServerSentEvent" where
  "replaceResponseEvent t =
     \<lparr>sse_data = Some (stringify (JObject [(''text'', JString t)])), sse_event = Some ''replace_response'',
      sse_id = None, sse_retry = None\<rparr>"

definition suggestedReplyEvent :: "string \<Rightarrow> ServerSentEvent" where
  "suggestedReplyEvent t =
     \<lparr>sse_data = Some (stringify (JObject [(''text'', JString t)])), sse_event = Some ''suggested_reply'',
      sse_id = None, sse_retry = None\<rparr>"

definition doneEvent :: ServerSentEvent where
  "doneEvent = \<lparr>sse_data = Some ''{}'', sse_event = Some ''done'', sse_id = None, sse_retry = None\<rparr>"

text \<open>\<open>metaEvent(options)\<close>: an option left out takes its default.\<close>

definition metaEvent :: "string option \<Rightarrow> bool option \<Rightarrow> bool option \<Rightarrow> bool option \<Rightarrow> ServerSentEvent" where
  "metaEvent contentType refetchSettings linkify suggestedReplies =
     \<lparr>sse_data = Some (stringify (JObject
        [(''content_type'', JString (nullish contentType ''text/markdown'')),
         (''refetch_settings'', JBool (nullish refetchSettings False)),
         (''linkify'', JBool (nullish linkify True)),
         (''suggested_replies'', JBool (nullish suggestedReplies False))])),
      sse_event = Some ''meta'', sse_id = None, sse_retry = None\<rparr>"

text \<open>
  \<open>errorEvent(text, {allowRetry, errorType})\<close>. \<open>errorData\<close> is the value handed to
  \<open>JSON.stringify\<close>: the object \<open>{ allowRetry }\<close>, with \<open>text\<close> and \<open>errorType\<close> added when
  they are truthy, passed through \<open>modelDump\<close>.
\<close>

definition errorData :: "string option \<Rightarrow> bool option \<Rightarrow> string option \<Rightarrow> json" where
  "errorData t allowRetry errorType =
     modelDump (JObject
       ([(''allowRetry'', JBool (nullish allowRetry True))]
        @ (if truthy_opt t then [(''text'', JString (nullish t []))] else [])
        @ (if truthy_opt errorType then [(''errorType'', JString (nullish errorType []))] else [])))"

definition errorEvent :: "string option \<Rightarrow> bool option \<Rightarrow> string option \<Rightarrow> ServerSentEvent" where
  "errorEvent t allowRetry errorType =
     \<lparr>sse_data = Some (stringify (errorData t allowRetry errorType)), sse_event = Some ''error'',
      sse_id = None, sse_retry = None\<rparr>"

subsection \<open>What a handler yields\<close>

text \<open>
  An object yielded by \<open>getResponseWithContext\<close>: a \<open>ServerSentEvent\<close>, a
  \<open>PartialResponse\<close>, an \<open>ErrorResponse\<close> or a \<open>MetaResponse\<close>. The record has every
  property \<open>handleQuery\<close> reads; a property the object does not have is \<open>None\<close>.
\<close>

record HandlerItem =
  hi_event :: "string option"
  hi_data :: "string option"
  hi_id :: "string option"
  hi_retry :: "number option"
  hi_text :: "string option"
  hi_allowRetry :: "bool option"
  hi_errorType :: "string option"
  hi_suggestedReplies :: "bool option"
  hi_contentType :: "string option"
  hi_refetchSettings :: "bool option"
  hi_linkify :: "bool option"
  hi_isSuggestedReply :: "bool option"
  hi_isReplaceResponse :: "bool option"

text \<open>
  The body of the \<open>for await\<close> loop of \<open>handleQuery\<close>: the tests \<open>isEventMessage\<close>,
  \<open>isErrorMessage\<close>, \<open>isMetaMessage\<close> and \<open>isPartialMessage\<close> in the order of the code.
\<close>

definition translateItem :: "HandlerItem \<Rightarrow> ServerSentEvent list" where
  "translateItem it =
     (if hi_event it \<noteq> None
      then [\<lparr>sse_data = hi_data it, sse_event = hi_event it, sse_id = hi_id it, sse_retry = hi_retry it\<rparr>]
      else if hi_allowRetry it \<noteq> None
      then [errorEvent (hi_text it) (hi_allowRetry it) (hi_errorType it)]
      else if hi_suggestedReplies it \<noteq> None
      then [metaEvent (hi_contentType it) (hi_refetchSettings it) (hi_linkify it) (hi_suggestedReplies it)]
      else if hi_text it \<noteq> None
      then (if hi_isSuggestedReply it = Some True then [suggestedReplyEvent (nullish (hi_text it) [])]
            else if hi_isReplaceResponse it = Some True then [replaceResponseEvent (nullish (hi_text it) [])]
            else [textEvent (nullish (hi_text it) [])])
      else [])"

subsection \<open>The pending attachment table\<close>

text \<open>
  An upload task (the promise of \<open>makeFileAttachmentRequest\<close>): its identity and how it
  settles (\<open>None\<close>: it resolves; \<open>Some msg\<close>: it rejects with an error of that message).
  \<open>pendingFileAttachmentTasks\<close> maps a message id to the array of its tasks.
\<close>

record UploadTask =
  task_id :: nat
  task_error :: "string option"

type_synonym pendingTable = "string \<rightharpoonup> UploadTask list"

text \<open>
  \<open>postMessageAttachment(messageId, ...)\<close>, awaited by its caller, for the task its
  request creates: the table after the call and the error message the call throws, if
  any. \<open>pendingTasksForMessage\<close> is read before the entry is created: for the first
  task of a message it is undefined, \<open>index\<close> is undefined, and the \<open>finally\<close> removes
  nothing.
\<close>

definition postMessageAttachment :: "pendingTable \<Rightarrow> string \<Rightarrow> UploadTask \<Rightarrow> pendingTable \<times> string option" where
  "postMessageAttachment table messageId task =
     (if \<not> truthy messageId then (table, Some ''messageId parameter is required'')
      else
        (case table messageId of
           None \<Rightarrow> (table(messageId \<mapsto> [task]), task_error task)
         | Some pendingTasksForMessage \<Rightarrow>
             (table(messageId \<mapsto> remove1 task (pendingTasksForMessage @ [task])), task_error task)))"

text \<open>
  \<open>processPendingAttachmentRequests(messageId)\<close>: the table after the call and the
  message of the error it throws, if any. \<open>Promise.all\<close> rejects with the first
  rejection of the array, and the \<open>delete\<close> after it is not reached.
\<close>

definition processPendingAttachmentRequests :: "pendingTable \<Rightarrow> string \<Rightarrow> pendingTable \<times> string option" where
  "processPendingAttachmentRequests table messageId =
     (case table messageId of
        None \<Rightarrow> (table, None)
      | Some pendingTasks \<Rightarrow>
          (case List.find (\<lambda>t. task_error t \<noteq> None) pendingTasks of
             Some t \<Rightarrow> (table, task_error t)
           | None \<Rightarrow> (table(messageId := None), None)))"

subsection \<open>\<open>handleQuery\<close>\<close>

text \<open>
  What happens inside the first \<open>try\<close> block of \<open>handleQuery\<close>, given by the bot's code:
  the steps of the handler in order, each a \<open>yield\<close> of an object or an awaited call of
  \<open>postMessageAttachment\<close>, and how the block ends (\<open>Throws m\<close>: an exception whose
  \<open>message\<close> property is \<open>m\<close>, thrown by the handler or by the insertion of the
  attachment messages before it).
\<close>

datatype handlerStep = Yield HandlerItem | Attach string UploadTask

datatype handlerEnd = Returns | Throws "string option"

record Handler =
  steps :: "handlerStep list"
  ending :: handlerEnd

fun runSteps :: "pendingTable \<Rightarrow> handlerStep list \<Rightarrow> ServerSentEvent list \<times> pendingTable" where
  "runSteps table [] = ([], table)"
| "runSteps table (Yield it # rest) =
     (case runSteps table rest of (evs, table') \<Rightarrow> (translateItem it @ evs, table'))"
| "runSteps table (Attach messageId task # rest) =
     runSteps (fst (postMessageAttachment table messageId task)) rest"

text \<open>
  \<open>handleQuery(request, context)\<close> for a request with the given \<open>messageId\<close>: the
  events yielded, in order, and the bot's table when the generator completes.
\<close>

definition handleQuery :: "pendingTable \<Rightarrow> string \<Rightarrow> Handler \<Rightarrow> ServerSentEvent list \<times> pendingTable" where
  "handleQuery table messageId handler =
     (case runSteps table (steps handler) of (evs, table1) \<Rightarrow>
       (case processPendingAttachmentRequests table1 messageId of (table2, drainError) \<Rightarrow>
         (evs
          @ (case ending handler of
               Returns \<Rightarrow> []
             | Throws m \<Rightarrow> [errorEvent m (Some False) None])
          @ (case drainError of
               None \<Rightarrow> []
             | Some m \<Rightarrow> [errorEvent (Some m) (Some False) None])
          @ [doneEvent],
          table2)))"

text \<open>A \<open>PartialResponse\<close> with the default flags and the given text, as a bot yields it.\<close>

definition textItem :: "string \<Rightarrow> HandlerItem" where
  "textItem t =
     \<lparr>hi_event = None, hi_data = None, hi_id = None, hi_retry = None, hi_text = Some t,
      hi_allowRetry = None, hi_errorType = None, hi_suggestedReplies = None, hi_contentType = None,
      hi_refetchSettings = None, hi_linkify = None,
      hi_isSuggestedReply = Some False, hi_isReplaceResponse = Some False\<rparr>"

section \<open>The event source\<close>

text \<open>\<open>s.trim()\<close>: white space is removed at both ends.\<close>

definition trim :: "string \<Rightarrow> string" where
  "trim s = rev (dropWhile isWhiteSpace (rev (dropWhile isWhiteSpace s)))"

text \<open>
  The \<open>while ((firstNewline = buffer.indexOf('\n')) !== -1)\<close> loop of \<open>iterSSE\<close>: every
  complete line of the buffer is trimmed and handed to the decoder. The result is the
  events yielded, the decoder, and what is left of the buffer.
\<close>

function drainBuffer :: "SSEDecoder \<Rightarrow> string \<Rightarrow> ServerSentEvent list \<times> SSEDecoder \<times> string" where
  "drainBuffer st buffer =
     (case indexOf LF buffer of
        None \<Rightarrow> ([], st, buffer)
      | Some firstNewline \<Rightarrow>
          (case decode st (trim (take firstNewline buffer)) of (sse, st') \<Rightarrow>
            (case drainBuffer st' (drop (firstNewline + 1) buffer) of (evs, st'', rest) \<Rightarrow>
              ((case sse of None \<Rightarrow> [] | Some e \<Rightarrow> [e]) @ evs, st'', rest))))"
  by pat_completeness auto
termination
proof (relation "measure (\<lambda>(st, buffer). length buffer)")
  show "wf (measure (\<lambda>(st, buffer). length buffer))" by simp
next
  fix st :: SSEDecoder and buffer :: string and firstNewline :: nat
    and x :: "ServerSentEvent option \<times> SSEDecoder" and sse :: "ServerSentEvent option" and st' :: SSEDecoder
  assume "indexOf LF buffer = Some firstNewline"
  then have "buffer \<noteq> []" by auto
  then show "((st', drop (firstNewline + 1) buffer), (st, buffer)) \<in> measure (\<lambda>(st, buffer). length buffer)"
    by simp
qed

text \<open>
  The \<open>for await (const chunk of this.response.data)\<close> loop: each chunk, as decoded text,
  is appended to the buffer, which is then drained.
\<close>

fun iterChunks :: "SSEDecoder \<Rightarrow> string \<Rightarrow> string list \<Rightarrow> ServerSentEvent list" where
  "iterChunks st buffer [] = []"
| "iterChunks st buffer (chunk # later) =
     (case drainBuffer st (buffer @ chunk) of (evs, st', buffer') \<Rightarrow>
        evs @ iterChunks st' buffer' later)"

text \<open>
  \<open>iterSSE()\<close> on a response whose content type is \<open>text/event-stream\<close> and whose body
  arrives in the given chunks: the events yielded, in order.
\<close>

definition iterSSE :: "string list \<Rightarrow> ServerSentEvent list" where
  "iterSSE body = iterChunks newSSEDecoder [] body"

text \<open>
  Vocabulary for the round trip: a string that does not end in white space, and a
  field value that is one line and does not end in white space.
\<close>

definition noTrailingSpace :: "string \<Rightarrow> bool" where
  "noTrailingSpace s = (s = [] \<or> \<not> isWhiteSpace (last s))"

definition plainField :: "string \<Rightarrow> bool" where
  "plainField s = (CR \<notin> set s \<and> LF \<notin> set s \<and> noTrailingSpace s)"

text \<open>
  Vocabulary for the round trip: a field line as the encoder writes it, a line as
  \<open>iterSSE\<close> hands it to the decoder when the separator is \<open>\r\n\<close> (cut before the
  line feed, then trimmed), the lines the encoder writes for an event with no comment,
  and the events the round trip is stated for.
\<close>

definition fieldLine :: "string \<Rightarrow> string \<Rightarrow> string" where
  "fieldLine f v = f @ '': '' @ v"

definition arriving :: "string \<Rightarrow> string" where
  "arriving l = trim (l @ [CR])"

definition integerBelow1e21 :: "int \<Rightarrow> bool" where
  "integerBelow1e21 r = (toDouble \<bar>r\<bar> = \<bar>r\<bar> \<and> \<bar>r\<bar> < 10 ^ 21)"

definition wireLines :: "ServerSentEvent \<Rightarrow> string list" where
  "wireLines e =
     (case sse_id e of None \<Rightarrow> [] | Some i \<Rightarrow> [fieldLine ''id'' (replace_LINE_SEP i)])
     @ (case sse_event e of None \<Rightarrow> [] | Some ev \<Rightarrow> [fieldLine ''event'' (replace_LINE_SEP ev)])
     @ (case sse_data e of None \<Rightarrow> [] | Some d \<Rightarrow> map (fieldLine ''data'') (split_LINE_SEP d))
     @ (case sse_retry e of None \<Rightarrow> [] | Some r \<Rightarrow> [fieldLine ''retry'' (numberToString r)])
     @ [[]]"

definition encodable :: "ServerSentEvent \<Rightarrow> bool" where
  "encodable e =
     ((case sse_id e of None \<Rightarrow> True | Some i \<Rightarrow> plainField i \<and> NUL \<notin> set i)
      \<and> (case sse_event e of None \<Rightarrow> True | Some ev \<Rightarrow> plainField ev)
      \<and> (case sse_data e of None \<Rightarrow> True
          | Some d \<Rightarrow> CR \<notin> set d \<and> list_all noTrailingSpace (split_LINE_SEP d))
      \<and> (case sse_retry e of None \<Rightarrow> True
          | Some r \<Rightarrow> (case r of Finite i \<Rightarrow> integerBelow1e21 i | _ \<Rightarrow> False))
      \<and> (sse_data e \<noteq> None \<or> truthy_opt (sse_event e) \<or> truthy_opt (sse_id e) \<or> sse_retry e \<noteq> None))"

chapter \<open>Properties\<close>

section \<open>Separator stripping on encode\<close>

lemma replace_LINE_SEP_two_terminators:
  "replace_LINE_SEP [CHR ''a'', LF, CHR ''b'', LF, CHR ''c''] = [CHR ''a'', CHR ''b'', LF, CHR ''c'']"
  by (simp add: LF_def CR_def)

text \<open>
  C6. The claim is that the emitted \<open>id:\<close> and \<open>event:\<close> values never hold a line
  terminator, also when the field has more than one. The code removes the leftmost
  terminator only: an \<open>id\<close> of \<open>a\nb\nc\<close> is emitted as \<open>id: ab\nc\<close>, and an \<open>event\<close>
  likewise, so the second terminator stays inside the emitted value.
\<close>

theorem encode_keeps_second_terminator:
  "encodeServerSentEvent (emptySSE\<lparr>sse_id := Some [CHR ''a'', LF, CHR ''b'', LF, CHR ''c'']\<rparr>) [] CRLF
     = ''id: '' @ [CHR ''a'', CHR ''b'', LF, CHR ''c''] @ CRLF @ CRLF
   \<and> encodeServerSentEvent (emptySSE\<lparr>sse_event := Some [CHR ''a'', LF, CHR ''b'', LF, CHR ''c'']\<rparr>) [] CRLF
     = ''event: '' @ [CHR ''a'', CHR ''b'', LF, CHR ''c''] @ CRLF @ CRLF
   \<and> LF \<in> set (replace_LINE_SEP [CHR ''a'', LF, CHR ''b'', LF, CHR ''c''])"
  by (simp add: encodeServerSentEvent_def emptySSE_def truthy_def CRLF_def LF_def CR_def)

section \<open>Decoder dispatch and empty records\<close>

lemma decodeLines_append:
  "decodeLines st (as @ bs) =
     (fst (decodeLines st as) @ fst (decodeLines (snd (decodeLines st as)) bs),
      snd (decodeLines (snd (decodeLines st as)) bs))"
  by (induction as arbitrary: st) (auto split: prod.splits)

lemma snd_decodeLines_Cons:
  "snd (decodeLines st (l # ls)) = snd (decodeLines (snd (decode st l)) ls)"
  by (simp split: prod.splits)

lemma fst_decodeLines_Cons:
  "fst (decodeLines st (l # ls)) =
     (case fst (decode st l) of None \<Rightarrow> [] | Some e \<Rightarrow> [e]) @ fst (decodeLines (snd (decode st l)) ls)"
  by (simp split: prod.splits)

lemma decode_comment: "startsWith l (CHR '':'') \<Longrightarrow> decode st l = (None, st)"
  by (cases l) (auto simp: decode_def startsWith_def truthy_def)

lemma decode_blank_resets: "accumulatorsReset (snd (decode st []))"
  by (simp add: decode_def truthy_def accumulatorsReset_def)

lemma decode_blank_keeps_id: "dec_lastEventId (snd (decode st [])) = dec_lastEventId st"
  by (simp add: decode_def truthy_def)

lemma decode_noField_reset:
  "accumulatorsReset st \<Longrightarrow> noFieldLine l \<Longrightarrow> accumulatorsReset (snd (decode st l))"
  by (cases "l = []") (auto simp: decode_blank_resets decode_comment noFieldLine_def)

lemma decodeLines_noField_reset:
  "accumulatorsReset st \<Longrightarrow> list_all noFieldLine cs \<Longrightarrow> accumulatorsReset (snd (decodeLines st cs))"
proof (induction cs arbitrary: st)
  case Nil
  then show ?case by simp
next
  case (Cons c cs)
  have "accumulatorsReset (snd (decode st c))"
    using Cons.prems by (simp add: decode_noField_reset)
  then have "accumulatorsReset (snd (decodeLines (snd (decode st c)) cs))"
    using Cons.prems by (intro Cons.IH) simp_all
  then show ?case by (simp only: snd_decodeLines_Cons)
qed

lemma decode_blank_silent:
  "accumulatorsReset st \<Longrightarrow> dec_lastEventId st = [] \<Longrightarrow> decode st [] = (None, st)"
  by (simp add: decode_def truthy_def accumulatorsReset_def)

lemma decode_blank_id_only:
  "accumulatorsReset st \<Longrightarrow> dec_lastEventId st \<noteq> [] \<Longrightarrow>
     decode st [] = (Some \<lparr>sse_data = Some [], sse_event = Some [], sse_id = Some (dec_lastEventId st), sse_retry = None\<rparr>, st)"
  by (simp add: decode_def truthy_def accumulatorsReset_def nullish_def)

lemma new_reset: "accumulatorsReset newSSEDecoder"
  by (simp add: accumulatorsReset_def newSSEDecoder_def)

lemma afterLines_reset:
  assumes "list_all noFieldLine cs"
  shows "accumulatorsReset (afterLines cs)" and "accumulatorsReset (afterLines (ls @ [] # cs))"
proof -
  show "accumulatorsReset (afterLines cs)"
    unfolding afterLines_def using new_reset assms by (rule decodeLines_noField_reset)
  have "afterLines (ls @ [] # cs) = snd (decodeLines (snd (decode (afterLines ls) [])) cs)"
    by (simp add: afterLines_def decodeLines_append split: prod.splits)
  then show "accumulatorsReset (afterLines (ls @ [] # cs))"
    using decode_blank_resets assms by (simp add: decodeLines_noField_reset)
qed


text \<open>
  C7, as amended. The history \<open>h\<close> of the decoder ends with a run \<open>cs\<close> of blank and
  comment lines that starts the stream or follows a blank line: no field line has been
  seen since the last dispatch. The next blank line then produces no event when the
  decoder's \<open>lastEventId\<close> is empty, and leaves the decoder as it was; when
  \<open>lastEventId\<close> is not empty it produces an event that carries that id, empty data
  and no retry. After any history \<open>pre\<close>, a blank line that dispatches leaves the
  \<open>event\<close>, \<open>data\<close> and \<open>retry\<close> accumulators reset and \<open>lastEventId\<close> as it was.
\<close>

theorem blank_line_dispatch:
  assumes "list_all noFieldLine cs" and "h = cs \<or> h = ls @ [] # cs"
  shows "(dec_lastEventId (afterLines h) = []
            \<longrightarrow> decode (afterLines h) [] = (None, afterLines h))
       \<and> (dec_lastEventId (afterLines h) \<noteq> []
            \<longrightarrow> map_option sse_id (fst (decode (afterLines h) [])) = Some (Some (dec_lastEventId (afterLines h)))
              \<and> map_option sse_data (fst (decode (afterLines h) [])) = Some (Some [])
              \<and> map_option sse_retry (fst (decode (afterLines h) [])) = Some None)
       \<and> (fst (decode (afterLines pre) []) \<noteq> None
            \<longrightarrow> accumulatorsReset (snd (decode (afterLines pre) []))
              \<and> dec_lastEventId (snd (decode (afterLines pre) [])) = dec_lastEventId (afterLines pre))"
proof -
  have r: "accumulatorsReset (afterLines h)"
    using assms afterLines_reset by blast
  show ?thesis
    using r by (simp add: decode_blank_silent decode_blank_id_only decode_blank_resets decode_blank_keeps_id)
qed

theorem blank_line_dispatch_witness:
  "list_all noFieldLine ['': c'']
   \<and> dec_lastEventId (afterLines ([''data: x''] @ [] # ['': c''])) = []
   \<and> decode (afterLines ([''data: x''] @ [] # ['': c''])) []
       = (None, afterLines ([''data: x''] @ [] # ['': c'']))
   \<and> fst (decode (afterLines [''id: 7'', ''data: x'']) []) \<noteq> None
   \<and> accumulatorsReset (snd (decode (afterLines [''id: 7'', ''data: x'']) []))
   \<and> dec_lastEventId (snd (decode (afterLines [''id: 7'', ''data: x'']) [])) = ''7''"
proof -
  have c: "list_all noFieldLine ['': c'']" by code_simp
  have i: "dec_lastEventId (afterLines ([''data: x''] @ [] # ['': c''])) = []" by code_simp
  have d: "fst (decode (afterLines [''id: 7'', ''data: x'']) []) \<noteq> None" by code_simp
  have k: "dec_lastEventId (afterLines [''id: 7'', ''data: x'']) = ''7''" by code_simp
  show ?thesis
    using c i d k
      blank_line_dispatch [OF c, of "[''data: x''] @ [] # ['': c'']" "[''data: x'']" "[''id: 7'', ''data: x'']"]
    by simp
qed

text \<open>
  The claim as stated fails: after \<open>id: 1\<close>, \<open>data: x\<close> and a blank line that
  dispatches, a second blank line, with no field line in between, dispatches again.
\<close>

theorem blank_after_dispatch_counterexample:
  "fst (decodeLines newSSEDecoder [''id: 1'', ''data: x'', []])
     = [\<lparr>sse_data = Some ''x'', sse_event = Some [], sse_id = Some ''1'', sse_retry = None\<rparr>]
   \<and> fst (decode (afterLines [''id: 1'', ''data: x'', []]) [])
     = Some \<lparr>sse_data = Some [], sse_event = Some [], sse_id = Some ''1'', sse_retry = None\<rparr>"
  by code_simp

section \<open>Auth rejection\<close>

lemma split_char_no_sep: "sep \<notin> set s \<Longrightarrow> split_char sep s = [s]"
  by (induction s) auto

lemma split_char_at_sep:
  "sep \<notin> set s \<Longrightarrow> split_char sep (s @ sep # t) = s # split_char sep t"
  by (induction s) auto

lemma toLowerCase_bearer_no_space:
  assumes "toLowerCase sch = ''bearer''"
  shows "CHR '' '' \<notin> set sch"
proof
  assume "CHR '' '' \<in> set sch"
  then have "toLowerCase_char (CHR '' '') \<in> set (toLowerCase sch)"
    by (auto simp: toLowerCase_def)
  moreover have "toLowerCase_char (CHR '' '') = CHR '' ''"
    by (simp add: toLowerCase_char_def)
  ultimately show False using assms by simp
qed

lemma extractAuthorization_wellformed:
  assumes "toLowerCase sch = ''bearer''" "tok \<noteq> []" "CHR '' '' \<notin> set tok"
  shows "extractAuthorization (Some (sch @ CHR '' '' # tok)) = Inr (sch, tok)"
proof -
  have ns: "CHR '' '' \<notin> set sch" using assms(1) by (rule toLowerCase_bearer_no_space)
  have ne: "sch \<noteq> []" using assms(1) by (auto simp: toLowerCase_def)
  have sp: "split_char (CHR '' '') (sch @ CHR '' '' # tok) = [sch, tok]"
    using ns assms(3) by (simp add: split_char_at_sep split_char_no_sep)
  show ?thesis
    using ne assms(1,2)
    by (simp add: extractAuthorization_def sp nth_opt_def truthy_opt_def truthy_def nullish_def Let_def)
qed

lemma authRoute_rejects:
  assumes "truthy k"
  shows "authRoute (Some k) None
           = Inl \<lparr>statusCode = 403, message = ''Not authenticated'', headers = []\<rparr>"
    and "toLowerCase sch = ''bearer'' \<Longrightarrow> tok \<noteq> [] \<Longrightarrow> CHR '' '' \<notin> set tok \<Longrightarrow> tok \<noteq> k
          \<Longrightarrow> authRoute (Some k) (Some (sch @ CHR '' '' # tok))
                = Inl \<lparr>statusCode = 401, message = ''Invalid access key'',
                       headers = [(''WWW-Authenticate'', ''Bearer'')]\<rparr>"
proof -
  show "authRoute (Some k) None
           = Inl \<lparr>statusCode = 403, message = ''Not authenticated'', headers = []\<rparr>"
    using assms
    by (simp add: authRoute_def extractAuthorization_def truthy_opt_def nth_opt_def Let_def)
next
  assume h: "toLowerCase sch = ''bearer''" "tok \<noteq> []" "CHR '' '' \<notin> set tok" "tok \<noteq> k"
  then have "extractAuthorization (Some (sch @ CHR '' '' # tok)) = Inr (sch, tok)"
    by (simp add: extractAuthorization_wellformed)
  then show "authRoute (Some k) (Some (sch @ CHR '' '' # tok))
                = Inl \<lparr>statusCode = 401, message = ''Invalid access key'',
                       headers = [(''WWW-Authenticate'', ''Bearer'')]\<rparr>"
    using assms h by (simp add: authRoute_def truthy_opt_def)
qed

lemma postRequest_authRoute:
  "postRequest accessKey authorization =
     (case authRoute accessKey authorization of Inr u \<Rightarrow> RequestHandler | Inl e \<Rightarrow> Unanswered e)"
  by (simp add: postRequest_def makeApp_def split: sum.splits)

lemma rejected_post_unanswered:
  assumes "truthy k"
  shows "postRequest (Some k) None
           = Unanswered \<lparr>statusCode = 403, message = ''Not authenticated'', headers = []\<rparr>"
    and "toLowerCase sch = ''bearer'' \<Longrightarrow> tok \<noteq> [] \<Longrightarrow> CHR '' '' \<notin> set tok \<Longrightarrow> tok \<noteq> k
          \<Longrightarrow> postRequest (Some k) (Some (sch @ CHR '' '' # tok))
                = Unanswered \<lparr>statusCode = 401, message = ''Invalid access key'',
                       headers = [(''WWW-Authenticate'', ''Bearer'')]\<rparr>"
  using authRoute_rejects [OF assms] by (simp_all add: postRequest_authRoute)

lemma errorMiddleware_sets_no_header: "res_headers (errorMiddleware error) = []"
  by (cases error) (simp_all add: errorMiddleware_def)

text \<open>
  C8. The claim is that a \<open>POST\<close> to a bot with an access key is answered with status
  403 (\<open>Not authenticated\<close>) when it carries no \<open>Authorization\<close> header, and with status
  401 (\<open>Invalid access key\<close>) and the response header \<open>WWW-Authenticate: Bearer\<close> when it
  carries a bearer token that differs from the key. The program does throw the two
  exceptions, with these statuses, messages and header, but turns neither into a
  response. For the bot with key \<open>0123456789abcdef0123456789abcdef\<close>, both requests are
  left unanswered: the exception is the rejection of the promise of the \<open>async\<close>
  authentication handler, which Express 4 drops. And the error middleware of \<open>makeApp\<close>,
  handed the exception of the second request, would answer with status 401 and the
  message but without the \<open>WWW-Authenticate\<close> header.
\<close>

theorem auth_rejection_unanswered:
  "postRequest (Some ''0123456789abcdef0123456789abcdef'') None
     = Unanswered \<lparr>statusCode = 403, message = ''Not authenticated'', headers = []\<rparr>
   \<and> postRequest (Some ''0123456789abcdef0123456789abcdef'')
         (Some ''Bearer ffffffffffffffffffffffffffffffff'')
     = Unanswered \<lparr>statusCode = 401, message = ''Invalid access key'',
                     headers = [(''WWW-Authenticate'', ''Bearer'')]\<rparr>
   \<and> errorMiddleware (IsHTTPException \<lparr>statusCode = 401, message = ''Invalid access key'',
                     headers = [(''WWW-Authenticate'', ''Bearer'')]\<rparr>)
     = \<lparr>res_status = 401, res_headers = [], res_body = ''Invalid access key''\<rparr>"
  by code_simp

section \<open>Retry boundaries of the client request loop\<close>

declare retryLoop.simps [simp del]

lemma retryLoop_calls_le: "calls (retryLoop n b p i g) \<le> n - i"
proof (induction n b p i g rule: retryLoop.induct)
  case (1 numTries botName perform i gotResponse)
  show ?case
  proof (cases "i < numTries")
    case False
    then show ?thesis by (simp add: retryLoop.simps)
  next
    case True
    show ?thesis
    proof (cases "outcome (perform i)")
      case None
      then show ?thesis using True by (simp add: retryLoop.simps Let_def)
    next
      case (Some e)
      have ih1: "isError e \<Longrightarrow> \<not> isBotErrorNoRetry e \<Longrightarrow>
                 \<not> (((gotResponse \<or> yielded (perform i) \<noteq> []) \<and> \<not> allowRetryAfterResponse e) \<or> i = numTries - 1) \<Longrightarrow>
        calls (retryLoop numTries botName perform (Suc i) (gotResponse \<or> yielded (perform i) \<noteq> [])) \<le> numTries - Suc i"
        using "1.IH"(1) [OF True refl refl Some] by blast
      have ih2: "\<not> isError e \<Longrightarrow> \<not> isBotErrorNoRetry e \<Longrightarrow>
        calls (retryLoop numTries botName perform (Suc i) (gotResponse \<or> yielded (perform i) \<noteq> [])) \<le> numTries - Suc i"
        using "1.IH"(2) [OF True refl refl Some] by blast
      show ?thesis
        using True Some ih1 ih2
        by (subst retryLoop.simps) (cases "isError e"; force simp: Let_def)
    qed
  qed
qed

lemma retryLoop_raised:
  "raised (retryLoop n b p i g) = Some x \<Longrightarrow> isBotErrorNoRetry x \<or> x = communicationError b"
proof (induction n b p i g rule: retryLoop.induct)
  case (1 numTries botName perform i gotResponse)
  show ?case
  proof (cases "i < numTries")
    case False
    then show ?thesis using "1.prems" by (simp add: retryLoop.simps)
  next
    case True
    show ?thesis
    proof (cases "outcome (perform i)")
      case None
      then show ?thesis using True "1.prems" by (simp add: retryLoop.simps Let_def)
    next
      case (Some e)
      show ?thesis
        using True Some "1.prems" "1.IH"(1) [OF True refl refl Some] "1.IH"(2) [OF True refl refl Some]
        by (subst (asm) retryLoop.simps) (auto simp: Let_def split: if_splits)
    qed
  qed
qed

lemma retryLoop_all_fail_silent:
  assumes "i < n" "\<not> g"
    and "\<forall>j. i \<le> j \<and> j < n \<longrightarrow> yielded (p j) = [] \<and> (\<exists>e. outcome (p j) = Some e \<and> transient e)"
  shows "calls (retryLoop n b p i g) = n - i \<and> raised (retryLoop n b p i g) = Some (communicationError b)"
  using assms
proof (induction "n - i" arbitrary: i)
  case 0
  then show ?case by simp
next
  case (Suc k)
  obtain e where e: "outcome (p i) = Some e" "transient e" and y: "yielded (p i) = []"
    using Suc.prems by auto
  show ?case
  proof (cases "i = n - 1")
    case True
    then show ?thesis
      using Suc.prems e y
      by (subst (1 2) retryLoop.simps) (auto simp: Let_def transient_def)
  next
    case False
    then have lt: "Suc i < n" using Suc.prems by simp
    have "k = n - Suc i" using Suc.hyps by simp
    then have ih: "calls (retryLoop n b p (Suc i) g) = n - Suc i \<and>
              raised (retryLoop n b p (Suc i) g) = Some (communicationError b)"
      using Suc.hyps(1) [of "Suc i"] lt Suc.prems by auto
    show ?thesis
      using Suc.prems e y False ih
      by (subst (1 2) retryLoop.simps) (auto simp: Let_def transient_def)
  qed
qed

lemma retryLoop_all_fail_aborted:
  assumes "i < n"
    and "\<forall>j. i \<le> j \<and> j < n \<longrightarrow> (\<exists>e. outcome (p j) = Some e \<and> transient e \<and> allowRetryAfterResponse e)"
  shows "calls (retryLoop n b p i g) = n - i \<and> raised (retryLoop n b p i g) = Some (communicationError b)"
  using assms
proof (induction "n - i" arbitrary: i g)
  case 0
  then show ?case by simp
next
  case (Suc k)
  obtain e where e: "outcome (p i) = Some e" "transient e" "allowRetryAfterResponse e"
    using Suc.prems by auto
  show ?case
  proof (cases "i = n - 1")
    case True
    then show ?thesis
      using Suc.prems e
      by (subst (1 2) retryLoop.simps) (auto simp: Let_def transient_def)
  next
    case False
    then have lt: "Suc i < n" using Suc.prems by simp
    have "k = n - Suc i" using Suc.hyps by simp
    then have ih: "\<And>g'. calls (retryLoop n b p (Suc i) g') = n - Suc i \<and>
              raised (retryLoop n b p (Suc i) g') = Some (communicationError b)"
      using Suc.hyps(1) [of "Suc i"] lt Suc.prems by auto
    show ?thesis
      using Suc.prems e False ih
      by (subst (1 2) retryLoop.simps) (auto simp: Let_def transient_def)
  qed
qed


text \<open>
  C3. With \<open>numTries = 3\<close>: a first call that throws \<open>BotErrorNoRetry\<close> is the only call, and the
  error is rethrown; there are never more than 3 calls; when every call throws a transient
  error before yielding a message there are exactly 3; a first call that yields a message and
  then throws a transient error that is not an aborted connection is the only call; when
  every call throws a transient aborted-connection error there are 3, whatever was yielded;
  and whatever the loop throws, other than a \<open>BotErrorNoRetry\<close>, is
  \<open>BotError("Error communicating with bot <name>")\<close>.
\<close>

theorem retry_boundaries:
  "(outcome (perform 0) = Some e \<and> isBotErrorNoRetry e
      \<longrightarrow> calls (streamRequestBase 3 botName perform) = 1
        \<and> raised (streamRequestBase 3 botName perform) = Some e)
   \<and> calls (streamRequestBase 3 botName perform) \<le> 3
   \<and> ((\<forall>j<3. yielded (perform j) = [] \<and> (\<exists>x. outcome (perform j) = Some x \<and> transient x))
      \<longrightarrow> calls (streamRequestBase 3 botName perform) = 3
        \<and> raised (streamRequestBase 3 botName perform)
            = Some (BotError (''Error communicating with bot '' @ botName)))
   \<and> (yielded (perform 0) \<noteq> [] \<and> outcome (perform 0) = Some e \<and> transient e
        \<and> \<not> allowRetryAfterResponse e
      \<longrightarrow> calls (streamRequestBase 3 botName perform) = 1
        \<and> raised (streamRequestBase 3 botName perform)
            = Some (BotError (''Error communicating with bot '' @ botName)))
   \<and> ((\<forall>j<3. \<exists>x. outcome (perform j) = Some x \<and> transient x \<and> allowRetryAfterResponse x)
      \<longrightarrow> calls (streamRequestBase 3 botName perform) = 3
        \<and> raised (streamRequestBase 3 botName perform)
            = Some (BotError (''Error communicating with bot '' @ botName)))
   \<and> (raised (streamRequestBase 3 botName perform) = Some y
      \<longrightarrow> isBotErrorNoRetry y \<or> y = BotError (''Error communicating with bot '' @ botName))"
proof (intro conjI impI)
  assume "outcome (perform 0) = Some e \<and> isBotErrorNoRetry e"
  then show "calls (streamRequestBase 3 botName perform) = 1"
    and "raised (streamRequestBase 3 botName perform) = Some e"
    by (simp_all add: streamRequestBase_def retryLoop.simps [of _ _ _ 0] Let_def)
next
  show "calls (streamRequestBase 3 botName perform) \<le> 3"
    using retryLoop_calls_le [of 3 botName perform 0 False] by (simp add: streamRequestBase_def)
next
  assume "\<forall>j<3. yielded (perform j) = [] \<and> (\<exists>x. outcome (perform j) = Some x \<and> transient x)"
  then have "calls (retryLoop 3 botName perform 0 False) = 3 - 0
      \<and> raised (retryLoop 3 botName perform 0 False) = Some (communicationError botName)"
    by (intro retryLoop_all_fail_silent) auto
  then show "calls (streamRequestBase 3 botName perform) = 3"
    and "raised (streamRequestBase 3 botName perform)
            = Some (BotError (''Error communicating with bot '' @ botName))"
    by (simp_all add: streamRequestBase_def communicationError_def)
next
  assume "yielded (perform 0) \<noteq> [] \<and> outcome (perform 0) = Some e \<and> transient e
        \<and> \<not> allowRetryAfterResponse e"
  then show "calls (streamRequestBase 3 botName perform) = 1"
    and "raised (streamRequestBase 3 botName perform)
            = Some (BotError (''Error communicating with bot '' @ botName))"
    by (simp_all add: streamRequestBase_def retryLoop.simps [of _ _ _ 0] Let_def transient_def
        communicationError_def)
next
  assume "\<forall>j<3. \<exists>x. outcome (perform j) = Some x \<and> transient x \<and> allowRetryAfterResponse x"
  then have "calls (retryLoop 3 botName perform 0 False) = 3 - 0
      \<and> raised (retryLoop 3 botName perform 0 False) = Some (communicationError botName)"
    by (intro retryLoop_all_fail_aborted) auto
  then show "calls (streamRequestBase 3 botName perform) = 3"
    and "raised (streamRequestBase 3 botName perform)
            = Some (BotError (''Error communicating with bot '' @ botName))"
    by (simp_all add: streamRequestBase_def communicationError_def)
next
  assume "raised (streamRequestBase 3 botName perform) = Some y"
  then show "isBotErrorNoRetry y \<or> y = BotError (''Error communicating with bot '' @ botName)"
    using retryLoop_raised [of 3 botName perform 0 False y]
    by (simp add: streamRequestBase_def communicationError_def)
qed

theorem retry_boundaries_witness:
  "calls (streamRequestBase 3 ''bot''
       (\<lambda>i. \<lparr>yielded = ([] :: nat list), outcome = Some (BotErrorNoRetry ''stop'')\<rparr>)) = 1
   \<and> raised (streamRequestBase 3 ''bot''
       (\<lambda>i. \<lparr>yielded = ([] :: nat list), outcome = Some (BotErrorNoRetry ''stop'')\<rparr>))
       = Some (BotErrorNoRetry ''stop'')
   \<and> calls (streamRequestBase 3 ''bot''
       (\<lambda>i. \<lparr>yielded = ([] :: nat list), outcome = Some (BotError ''again'')\<rparr>)) = 3
   \<and> calls (streamRequestBase 3 ''bot''
       (\<lambda>i. \<lparr>yielded = [7 :: nat], outcome = Some (BotError ''again'')\<rparr>)) = 1
   \<and> raised (streamRequestBase 3 ''bot''
       (\<lambda>i. \<lparr>yielded = [7 :: nat], outcome = Some (BotError ''again'')\<rparr>))
       = Some (BotError ''Error communicating with bot bot'')
   \<and> calls (streamRequestBase 3 ''bot''
       (\<lambda>i. \<lparr>yielded = [7 :: nat],
              outcome = Some (ErrorValue \<lparr>err_name = ''AxiosError'', err_message = ''timeout'',
                                          err_isAxiosError = True, err_code = Some ''ECONNABORTED''\<rparr>)\<rparr>)) = 3"
proof -
  let ?stop = "\<lambda>i::nat. \<lparr>yielded = ([] :: nat list), outcome = Some (BotErrorNoRetry ''stop'')\<rparr>"
  let ?silent = "\<lambda>i::nat. \<lparr>yielded = ([] :: nat list), outcome = Some (BotError ''again'')\<rparr>"
  let ?late = "\<lambda>i::nat. \<lparr>yielded = [7 :: nat], outcome = Some (BotError ''again'')\<rparr>"
  let ?abort = "ErrorValue \<lparr>err_name = ''AxiosError'', err_message = ''timeout'',
                                          err_isAxiosError = True, err_code = Some ''ECONNABORTED''\<rparr>"
  let ?aborted = "\<lambda>i::nat. \<lparr>yielded = [7 :: nat], outcome = Some ?abort\<rparr>"
  have n: "isBotErrorNoRetry (BotErrorNoRetry ''stop'')"
    by (simp add: isBotErrorNoRetry_def BotErrorNoRetry_def)
  have t: "transient (BotError ''again'')" "\<not> allowRetryAfterResponse (BotError ''again'')"
    by (simp_all add: transient_def isError_def isBotErrorNoRetry_def BotError_def allowRetryAfterResponse_def)
  have a: "transient ?abort" "allowRetryAfterResponse ?abort"
    by (simp_all add: transient_def isError_def isBotErrorNoRetry_def allowRetryAfterResponse_def)
  show ?thesis
    using n t a
      retry_boundaries [of ?stop "BotErrorNoRetry ''stop''" "''bot''"]
      retry_boundaries [of ?silent "BotError ''again''" "''bot''"]
      retry_boundaries [of ?late "BotError ''again''" "''bot''"]
      retry_boundaries [of ?aborted ?abort "''bot''"]
    by simp
qed

section \<open>The meta-first rule\<close>

lemma reportError_keeps:
  "eventCount (snd (reportError env msg st)) = eventCount st"
  "chunks (snd (reportError env msg st)) = chunks st"
  by (simp_all add: reportError_def)

lemma loadJsonDict_keeps:
  "eventCount (snd (loadJsonDict env d c st)) = eventCount st"
  "chunks (snd (loadJsonDict env d c st)) = chunks st"
  by (auto simp: loadJsonDict_def reportError_def Let_def split: option.splits prod.splits)

lemma getSingleJsonField_keeps:
  "eventCount (snd (getSingleJsonField env d c st)) = eventCount st"
  "chunks (snd (getSingleJsonField env d c st)) = chunks st"
  using loadJsonDict_keeps [of env d c st]
  by (auto simp: getSingleJsonField_def reportError_def split: option.splits prod.splits sum.splits json.splits)

lemma loadJsonDict_ok:
  "env_parse env d = Some j \<Longrightarrow> isObjectJ j \<Longrightarrow> loadJsonDict env (Some d) c st = (Inr j, st)"
  by (simp add: loadJsonDict_def parseData_def Let_def)

lemma getSingleJsonField_ok:
  "env_parse env d = Some j \<Longrightarrow> isObjectJ j \<Longrightarrow> getField j ''text'' = Some (JString t) \<Longrightarrow>
     getSingleJsonField env (Some d) c st = (Inr t, st)"
  by (simp add: getSingleJsonField_def loadJsonDict_ok)

lemma invalidMeta_props:
  "eventCount (snd (invalidMeta env f st)) = eventCount st"
  "fst (fst (invalidMeta env f st)) = []"
  by (auto simp: invalidMeta_def reportError_def split: option.splits prod.splits)

lemma doneBranch_props:
  "eventCount (snd (doneBranch env st)) = eventCount st"
  "fst (fst (doneBranch env st)) = []"
  by (auto simp: doneBranch_def reportError_def split: option.splits prod.splits)

lemma textBranch_props:
  "eventCount (snd (textBranch env st sse)) = eventCount st"
  "m \<in> set (fst (fst (textBranch env st sse))) \<Longrightarrow> \<not> isMetaMessage m"
  using getSingleJsonField_keeps(1) [of env "sse_data sse" "''text''" st]
  by (auto simp: textBranch_def textResponse_def isMetaMessage_def split: prod.splits sum.splits)

lemma replaceBranch_props:
  "eventCount (snd (replaceBranch env st sse)) = eventCount st"
  "m \<in> set (fst (fst (replaceBranch env st sse))) \<Longrightarrow> \<not> isMetaMessage m"
  using getSingleJsonField_keeps(1) [of env "sse_data sse" "''replace_response''" st]
  by (auto simp: replaceBranch_def textResponse_def isMetaMessage_def split: prod.splits sum.splits)

lemma suggestedBranch_props:
  "eventCount (snd (suggestedBranch env st sse)) = eventCount st"
  "m \<in> set (fst (fst (suggestedBranch env st sse))) \<Longrightarrow> \<not> isMetaMessage m"
  using getSingleJsonField_keeps(1) [of env "sse_data sse" "''suggested_reply''" st]
  by (auto simp: suggestedBranch_def textResponse_def isMetaMessage_def split: prod.splits sum.splits)

lemma jsonBranch_props:
  "eventCount (snd (jsonBranch env st sse)) = eventCount st"
  "m \<in> set (fst (fst (jsonBranch env st sse))) \<Longrightarrow> \<not> isMetaMessage m"
  by (auto simp: jsonBranch_def isMetaMessage_def split: option.splits)

lemma errorBranch_props:
  "eventCount (snd (errorBranch env st sse)) = eventCount st"
  "fst (fst (errorBranch env st sse)) = []"
  using loadJsonDict_keeps(1) [of env "sse_data sse" "''error''" st]
  by (auto simp: errorBranch_def split: prod.splits sum.splits)

lemma unknownBranch_props:
  "eventCount (snd (unknownBranch env st sse)) = eventCount st"
  "fst (fst (unknownBranch env st sse)) = []"
  by (auto simp: unknownBranch_def reportError_def split: option.splits prod.splits)

lemma metaBranch_count:
  "eventCount (snd (metaBranch env st sse)) = eventCount st"
  using loadJsonDict_keeps(1) [of env "sse_data sse" "''meta''" st]
  by (auto simp: metaBranch_def invalidMeta_props split: prod.splits sum.splits json.splits)

lemma metaBranch_later:
  "eventCount st \<noteq> 1 \<Longrightarrow> metaBranch env st sse = (([], Continue), st)"
  by (simp add: metaBranch_def)

lemma clientStep_count:
  "eventCount (snd (clientStep env st sse)) = eventCount st + 1"
  by (simp add: clientStep_def Let_def doneBranch_props textBranch_props replaceBranch_props
      suggestedBranch_props jsonBranch_props errorBranch_props unknownBranch_props metaBranch_count)

lemma clientStep_no_meta:
  assumes "m \<in> set (fst (fst (clientStep env st sse)))" "isMetaMessage m"
  shows "eventCount st = 0 \<and> sse_event sse = Some ''meta''"
proof -
  have "sse_event sse = Some ''meta''"
    using assms
    by (auto simp: clientStep_def Let_def doneBranch_props textBranch_props replaceBranch_props
      suggestedBranch_props jsonBranch_props errorBranch_props unknownBranch_props split: if_splits)
  moreover have "eventCount st = 0"
  proof (rule ccontr)
    assume "eventCount st \<noteq> 0"
    then have "metaBranch env (st\<lparr>eventCount := eventCount st + 1\<rparr>) sse
                 = (([], Continue), st\<lparr>eventCount := eventCount st + 1\<rparr>)"
      by (simp add: metaBranch_later)
    then show False using assms \<open>sse_event sse = Some ''meta''\<close>
      by (simp add: clientStep_def Let_def)
  qed
  ultimately show ?thesis by simp
qed

lemma clientStep_later_meta:
  "0 < eventCount st \<Longrightarrow> sse_event sse = Some ''meta'' \<Longrightarrow>
     clientStep env st sse = (([], Continue), st\<lparr>eventCount := eventCount st + 1\<rparr>)"
  by (simp add: clientStep_def Let_def metaBranch_later)

lemma fst_clientLoop_Cons:
  "set (fst (fst (clientLoop env st (sse # rest)))) \<subseteq>
     set (fst (fst (clientStep env st sse))) \<union> set (fst (fst (clientLoop env (snd (clientStep env st sse)) rest)))"
  by (auto split: prod.splits control.splits)

lemma clientLoop_no_meta_later:
  "0 < eventCount st \<Longrightarrow> m \<in> set (fst (fst (clientLoop env st evs))) \<Longrightarrow> \<not> isMetaMessage m"
proof (induction evs arbitrary: st)
  case Nil
  then show ?case by simp
next
  case (Cons sse rest)
  have "m \<in> set (fst (fst (clientStep env st sse)))
      \<or> m \<in> set (fst (fst (clientLoop env (snd (clientStep env st sse)) rest)))"
    using Cons.prems(2) fst_clientLoop_Cons by blast
  then show ?case
  proof
    assume "m \<in> set (fst (fst (clientStep env st sse)))"
    then show ?thesis using clientStep_no_meta Cons.prems(1) by fastforce
  next
    assume "m \<in> set (fst (fst (clientLoop env (snd (clientStep env st sse)) rest)))"
    moreover have "0 < eventCount (snd (clientStep env st sse))"
      by (simp add: clientStep_count)
    ultimately show ?thesis using Cons.IH by blast
  qed
qed

lemma clientLoop_append:
  "clientLoop env st (as @ bs) =
     (case clientLoop env st as of
        ((ys, Continue), st1) \<Rightarrow>
          (case clientLoop env st1 bs of ((zs, c), st2) \<Rightarrow> ((ys @ zs, c), st2))
      | r \<Rightarrow> r)"
  by (induction as arbitrary: st) (auto split: prod.splits control.splits)

lemma clientLoop_count:
  "clientLoop env st evs = ((ys, Continue), st') \<Longrightarrow> eventCount st' = eventCount st + length evs"
proof (induction evs arbitrary: st ys)
  case Nil
  then show ?case by simp
next
  case (Cons sse rest)
  obtain ys1 c1 st1 where s: "clientStep env st sse = ((ys1, c1), st1)"
    by (metis prod.exhaust)
  have c: "eventCount st1 = eventCount st + 1"
    using clientStep_count [of env st sse] s by simp
  show ?case
  proof (cases c1)
    case Continue
    obtain zs c2 st2 where l: "clientLoop env st1 rest = ((zs, c2), st2)"
      by (metis prod.exhaust)
    have "c2 = Continue" "st2 = st'" using Cons.prems s Continue l by auto
    then show ?thesis using Cons.IH [of st1 zs] l c by simp
  next
    case Return
    then show ?thesis using Cons.prems s by simp
  next
    case (Throw e)
    then show ?thesis using Cons.prems s by simp
  qed
qed


lemma yielded_performQueryRequest:
  "yielded (performQueryRequest env evs streamEnd) = fst (fst (clientLoop env initialClientState evs))"
  by (simp add: performQueryRequest_def split: prod.splits control.splits option.splits)

lemma clientStep_meta_first:
  assumes "sse_event sse = Some ''meta''" "sse_data sse = Some d" "env_parse env d = Some j"
    "isObjectJ j"
    "nullishJ (getField j ''linkify'') (JBool False) = JBool l"
    "nullishJ (getField j ''suggested_replies'') (JBool False) = JBool s"
    "nullishJ (getField j ''content_type'') (JString ''text/markdown'') = JString c"
  shows "clientStep env initialClientState sse
           = (([metaResponse env j l s c], Continue), initialClientState\<lparr>eventCount := 1\<rparr>)"
  using assms
  by (simp add: clientStep_def Let_def metaBranch_def initialClientState_def loadJsonDict_ok)

lemma clientStep_text:
  assumes "sse_event sse = Some ''text''" "sse_data sse = Some d" "env_parse env d = Some j"
    "isObjectJ j" "getField j ''text'' = Some (JString t)"
  shows "clientStep env st sse
           = (([textResponse env t ''text'' (Some d) False False], Continue),
              st\<lparr>eventCount := eventCount st + 1, chunks := chunks st @ [t]\<rparr>)"
  using assms
  by (simp add: clientStep_def Let_def textBranch_def getSingleJsonField_ok)

lemma clientStep_replace:
  assumes "sse_event sse = Some ''replace_response''" "sse_data sse = Some d" "env_parse env d = Some j"
    "isObjectJ j" "getField j ''text'' = Some (JString t)"
  shows "clientStep env st sse
           = (([textResponse env t ''replace_response'' (Some d) False True], Continue),
              st\<lparr>eventCount := eventCount st + 1, chunks := [t]\<rparr>)"
  using assms
  by (simp add: clientStep_def Let_def replaceBranch_def getSingleJsonField_ok)

lemma clientStep_done_with_text:
  assumes "sse_event sse = Some ''done''" "chunks st \<noteq> []"
  shows "clientStep env st sse = (([], Return), st\<lparr>eventCount := eventCount st + 1\<rparr>)"
  using assms by (simp add: clientStep_def Let_def doneBranch_def)

text \<open>
  C5. A \<open>meta\<close> event that arrives after at least one other event of a stream still
  open is dropped: nothing is yielded, nothing is reported, only \<open>eventCount\<close> changes.
  Whenever a call yields a \<open>MetaResponse\<close>, the first event of its stream is a \<open>meta\<close>
  event. For the stream \<open>[meta1, text, meta2]\<close> with well-formed payloads the call yields
  the \<open>MetaResponse\<close> of \<open>meta1\<close> and the text, and no other \<open>MetaResponse\<close>.
\<close>

theorem meta_first_rule:
  "(pre \<noteq> [] \<and> clientLoop env initialClientState pre = ((ys, Continue), st)
      \<and> sse_event late = Some ''meta''
     \<longrightarrow> clientLoop env initialClientState (pre @ [late])
           = ((ys, Continue), st\<lparr>eventCount := eventCount st + 1\<rparr>))
   \<and> (m \<in> set (yielded (performQueryRequest env evs streamEnd)) \<and> isMetaMessage m
     \<longrightarrow> evs \<noteq> [] \<and> sse_event (hd evs) = Some ''meta'')
   \<and> (sse_event meta1 = Some ''meta'' \<and> sse_data meta1 = Some d1 \<and> env_parse env d1 = Some j1
      \<and> isObjectJ j1
      \<and> nullishJ (getField j1 ''linkify'') (JBool False) = JBool l
      \<and> nullishJ (getField j1 ''suggested_replies'') (JBool False) = JBool s
      \<and> nullishJ (getField j1 ''content_type'') (JString ''text/markdown'') = JString c
      \<and> sse_event txtEv = Some ''text'' \<and> sse_data txtEv = Some d2 \<and> env_parse env d2 = Some j2
      \<and> isObjectJ j2 \<and> getField j2 ''text'' = Some (JString t)
      \<and> sse_event meta2 = Some ''meta''
     \<longrightarrow> yielded (performQueryRequest env [meta1, txtEv, meta2] streamEnd)
           = [metaResponse env j1 l s c, textResponse env t ''text'' (Some d2) False False]
       \<and> filter isMetaMessage (yielded (performQueryRequest env [meta1, txtEv, meta2] streamEnd))
           = [metaResponse env j1 l s c])"
proof (intro conjI impI)
  assume h: "pre \<noteq> [] \<and> clientLoop env initialClientState pre = ((ys, Continue), st)
      \<and> sse_event late = Some ''meta''"
  then have "eventCount st = eventCount initialClientState + length pre"
    using clientLoop_count by blast
  then have "0 < eventCount st" using h by simp
  then have "clientStep env st late = (([], Continue), st\<lparr>eventCount := eventCount st + 1\<rparr>)"
    using h by (simp add: clientStep_later_meta)
  then show "clientLoop env initialClientState (pre @ [late])
           = ((ys, Continue), st\<lparr>eventCount := eventCount st + 1\<rparr>)"
    using h by (simp add: clientLoop_append)
next
  assume h: "m \<in> set (yielded (performQueryRequest env evs streamEnd)) \<and> isMetaMessage m"
  then have m: "m \<in> set (fst (fst (clientLoop env initialClientState evs)))" "isMetaMessage m"
    by (simp_all add: yielded_performQueryRequest)
  show "evs \<noteq> []" using m by auto
  then obtain sse rest where evs: "evs = sse # rest" by (cases evs) auto
  have "m \<in> set (fst (fst (clientStep env initialClientState sse)))
      \<or> m \<in> set (fst (fst (clientLoop env (snd (clientStep env initialClientState sse)) rest)))"
    using m(1) evs fst_clientLoop_Cons by blast
  moreover have "0 < eventCount (snd (clientStep env initialClientState sse))"
    by (simp add: clientStep_count)
  ultimately have "m \<in> set (fst (fst (clientStep env initialClientState sse)))"
    using clientLoop_no_meta_later m(2) by blast
  then show "sse_event (hd evs) = Some ''meta''"
    using clientStep_no_meta m(2) evs by fastforce
next
  assume h: "sse_event meta1 = Some ''meta'' \<and> sse_data meta1 = Some d1 \<and> env_parse env d1 = Some j1
      \<and> isObjectJ j1
      \<and> nullishJ (getField j1 ''linkify'') (JBool False) = JBool l
      \<and> nullishJ (getField j1 ''suggested_replies'') (JBool False) = JBool s
      \<and> nullishJ (getField j1 ''content_type'') (JString ''text/markdown'') = JString c
      \<and> sse_event txtEv = Some ''text'' \<and> sse_data txtEv = Some d2 \<and> env_parse env d2 = Some j2
      \<and> isObjectJ j2 \<and> getField j2 ''text'' = Some (JString t)
      \<and> sse_event meta2 = Some ''meta''"
  have 1: "clientStep env initialClientState meta1
           = (([metaResponse env j1 l s c], Continue), initialClientState\<lparr>eventCount := 1\<rparr>)"
    using h clientStep_meta_first [of meta1 d1 env j1 l s c] by blast
  have 2: "\<And>st. clientStep env st txtEv
           = (([textResponse env t ''text'' (Some d2) False False], Continue),
              st\<lparr>eventCount := eventCount st + 1, chunks := chunks st @ [t]\<rparr>)"
    using h clientStep_text [of txtEv d2 env j2 t] by blast
  have 3: "\<And>st. 0 < eventCount st \<Longrightarrow> clientStep env st meta2
           = (([], Continue), st\<lparr>eventCount := eventCount st + 1\<rparr>)"
    using h by (simp add: clientStep_later_meta)
  show y: "yielded (performQueryRequest env [meta1, txtEv, meta2] streamEnd)
           = [metaResponse env j1 l s c, textResponse env t ''text'' (Some d2) False False]"
    by (simp add: yielded_performQueryRequest 1 2 3)
  show "filter isMetaMessage (yielded (performQueryRequest env [meta1, txtEv, meta2] streamEnd))
           = [metaResponse env j1 l s c]"
    by (simp add: y isMetaMessage_def metaResponse_def textResponse_def)
qed


theorem meta_first_rule_witness:
  \<open>yielded (performQueryRequest
       (tableEnv [(''{"linkify":true}'', JObject [(''linkify'', JBool True)]),
                  (''{"text":"abc"}'', JObject [(''text'', JString ''abc'')])])
       [sseOf ''meta'' ''{"linkify":true}'', sseOf ''text'' ''{"text":"abc"}'', sseOf ''meta'' ''{"linkify":false}'']
       None)
     = [metaResponse
          (tableEnv [(''{"linkify":true}'', JObject [(''linkify'', JBool True)]),
                     (''{"text":"abc"}'', JObject [(''text'', JString ''abc'')])])
          (JObject [(''linkify'', JBool True)]) True False ''text/markdown'',
        textResponse
          (tableEnv [(''{"linkify":true}'', JObject [(''linkify'', JBool True)]),
                     (''{"text":"abc"}'', JObject [(''text'', JString ''abc'')])])
          ''abc'' ''text'' (Some ''{"text":"abc"}'') False False]
   \<and> sse_event (hd [sseOf ''meta'' ''{"linkify":true}'', sseOf ''text'' ''{"text":"abc"}'',
                    sseOf ''meta'' ''{"linkify":false}'']) = Some ''meta''
   \<and> clientLoop
       (tableEnv [(''{"linkify":true}'', JObject [(''linkify'', JBool True)]),
                  (''{"text":"abc"}'', JObject [(''text'', JString ''abc'')])])
       initialClientState
       ([sseOf ''text'' ''{"text":"abc"}''] @ [sseOf ''meta'' ''{"linkify":true}''])
     = (([textResponse
            (tableEnv [(''{"linkify":true}'', JObject [(''linkify'', JBool True)]),
                       (''{"text":"abc"}'', JObject [(''text'', JString ''abc'')])])
            ''abc'' ''text'' (Some ''{"text":"abc"}'') False False], Continue),
        initialClientState\<lparr>eventCount := 1, chunks := [''abc''], eventCount := 2\<rparr>)\<close>
proof -
  let ?env = \<open>tableEnv [(''{"linkify":true}'', JObject [(''linkify'', JBool True)]),
                  (''{"text":"abc"}'', JObject [(''text'', JString ''abc'')])]\<close>
  let ?m1 = \<open>sseOf ''meta'' ''{"linkify":true}''\<close>
  let ?t = \<open>sseOf ''text'' ''{"text":"abc"}''\<close>
  let ?m2 = \<open>sseOf ''meta'' ''{"linkify":false}''\<close>
  let ?j1 = "JObject [(''linkify'', JBool True)]"
  let ?j2 = "JObject [(''text'', JString ''abc'')]"
  let ?tr = \<open>textResponse ?env ''abc'' ''text'' (Some ''{"text":"abc"}'') False False\<close>
  let ?mr = "metaResponse ?env ?j1 True False ''text/markdown''"
  have p1: \<open>env_parse ?env ''{"linkify":true}'' = Some ?j1\<close>
    and p2: \<open>env_parse ?env ''{"text":"abc"}'' = Some ?j2\<close>
    by (simp_all add: tableEnv_def)
  have e: "sse_event ?m1 = Some ''meta''" \<open>sse_data ?m1 = Some ''{"linkify":true}''\<close>
    "sse_event ?t = Some ''text''" \<open>sse_data ?t = Some ''{"text":"abc"}''\<close>
    "sse_event ?m2 = Some ''meta''"
    by (simp_all add: sseOf_def)
  have j: "isObjectJ ?j1" "isObjectJ ?j2"
    "nullishJ (getField ?j1 ''linkify'') (JBool False) = JBool True"
    "nullishJ (getField ?j1 ''suggested_replies'') (JBool False) = JBool False"
    "nullishJ (getField ?j1 ''content_type'') (JString ''text/markdown'') = JString ''text/markdown''"
    "getField ?j2 ''text'' = Some (JString ''abc'')"
    by (simp_all add: isObjectJ_def nullishJ_def getField_def)
  have pre: "clientLoop ?env initialClientState [?t]
      = (([?tr], Continue), initialClientState\<lparr>eventCount := 1, chunks := [''abc'']\<rparr>)"
    using clientStep_text [of ?t _ ?env ?j2 "''abc''" initialClientState] e p2 j
    by (simp add: initialClientState_def)
  have mm: "isMetaMessage ?mr" by (simp add: isMetaMessage_def metaResponse_def)
  note inst = meta_first_rule [of "[?t]" ?env "[?tr]" "initialClientState\<lparr>eventCount := 1, chunks := [''abc'']\<rparr>"
      ?m1 ?mr "[?m1, ?t, ?m2]" None ?m1 _ ?j1 True False "''text/markdown''" ?t _ ?j2 "''abc''" ?m2]
  show ?thesis
    using inst p1 p2 e j pre mm by simp
qed

section \<open>Replace semantics\<close>

lemma retryLoop_first_returns:
  "0 < n \<Longrightarrow> outcome (p 0) = None \<Longrightarrow>
     retryLoop n b p 0 g = \<lparr>messages = yielded (p 0), calls = 1, onErrorTries = [], raised = None\<rparr>"
  by (simp add: retryLoop.simps [of _ _ _ 0] Let_def)

text \<open>
  C9. A \<open>replace_response\<close> event whose data parses to an object with the string \<open>X\<close> in
  its \<open>text\<close> field leaves the client's \<open>chunks\<close> equal to \<open>[X]\<close>, from any state and so
  after any prior events that left the stream open. For a stream of a text event
  carrying \<open>A\<close>, a \<open>replace_response\<close> carrying \<open>B\<close> and \<open>done\<close>, \<open>getFinalResponse\<close>
  (with at least one try) returns \<open>B\<close>.
\<close>

theorem replace_semantics:
  "(sse_event rep = Some ''replace_response'' \<and> sse_data rep = Some d \<and> env_parse env d = Some j
      \<and> isObjectJ j \<and> getField j ''text'' = Some (JString X)
     \<longrightarrow> chunks (snd (clientStep env st rep)) = [X]
       \<and> (clientLoop env initialClientState pre = ((ys, Continue), st')
           \<longrightarrow> chunks (snd (clientLoop env initialClientState (pre @ [rep]))) = [X]))
   \<and> (0 < numTries
      \<and> sse_event ta = Some ''text'' \<and> sse_data ta = Some da \<and> env_parse env da = Some ja
      \<and> isObjectJ ja \<and> getField ja ''text'' = Some (JString A)
      \<and> sse_event rb = Some ''replace_response'' \<and> sse_data rb = Some db \<and> env_parse env db = Some jb
      \<and> isObjectJ jb \<and> getField jb ''text'' = Some (JString B)
      \<and> sse_event dn = Some ''done''
     \<longrightarrow> getFinalResponse numTries botName (\<lambda>i. performQueryRequest env [ta, rb, dn] streamEnd)
           = Inr B)"
proof (intro conjI impI)
  assume h: "sse_event rep = Some ''replace_response'' \<and> sse_data rep = Some d \<and> env_parse env d = Some j
      \<and> isObjectJ j \<and> getField j ''text'' = Some (JString X)"
  have r: "\<And>s. clientStep env s rep
           = (([textResponse env X ''replace_response'' (Some d) False True], Continue),
              s\<lparr>eventCount := eventCount s + 1, chunks := [X]\<rparr>)"
    using h clientStep_replace [of rep d env j X] by blast
  show "chunks (snd (clientStep env st rep)) = [X]"
    by (simp add: r)
  assume "clientLoop env initialClientState pre = ((ys, Continue), st')"
  then show "chunks (snd (clientLoop env initialClientState (pre @ [rep]))) = [X]"
    by (simp add: clientLoop_append r)
next
  assume h: "0 < numTries
      \<and> sse_event ta = Some ''text'' \<and> sse_data ta = Some da \<and> env_parse env da = Some ja
      \<and> isObjectJ ja \<and> getField ja ''text'' = Some (JString A)
      \<and> sse_event rb = Some ''replace_response'' \<and> sse_data rb = Some db \<and> env_parse env db = Some jb
      \<and> isObjectJ jb \<and> getField jb ''text'' = Some (JString B)
      \<and> sse_event dn = Some ''done''"
  have 1: "\<And>s. clientStep env s ta
           = (([textResponse env A ''text'' (Some da) False False], Continue),
              s\<lparr>eventCount := eventCount s + 1, chunks := chunks s @ [A]\<rparr>)"
    using h clientStep_text [of ta da env ja A] by blast
  have 2: "\<And>s. clientStep env s rb
           = (([textResponse env B ''replace_response'' (Some db) False True], Continue),
              s\<lparr>eventCount := eventCount s + 1, chunks := [B]\<rparr>)"
    using h clientStep_replace [of rb db env jb B] by blast
  have 3: "\<And>s. chunks s \<noteq> [] \<Longrightarrow> clientStep env s dn = (([], Return), s\<lparr>eventCount := eventCount s + 1\<rparr>)"
    using h by (simp add: clientStep_done_with_text)
  have p: "performQueryRequest env [ta, rb, dn] streamEnd
      = \<lparr>yielded = [textResponse env A ''text'' (Some da) False False,
                    textResponse env B ''replace_response'' (Some db) False True],
         outcome = None\<rparr>"
    by (simp add: performQueryRequest_def 1 2 3)
  have "streamRequestBase numTries botName (\<lambda>i. performQueryRequest env [ta, rb, dn] streamEnd)
      = \<lparr>messages = [textResponse env A ''text'' (Some da) False False,
                    textResponse env B ''replace_response'' (Some db) False True],
         calls = 1, onErrorTries = [], raised = None\<rparr>"
    using h by (simp add: streamRequestBase_def retryLoop_first_returns p)
  then show "getFinalResponse numTries botName (\<lambda>i. performQueryRequest env [ta, rb, dn] streamEnd)
           = Inr B"
    by (simp add: getFinalResponse_def Let_def finalStep_def isMetaMessage_def textResponse_def)
qed

theorem replace_semantics_witness:
  \<open>chunks (snd (clientLoop
       (tableEnv [(''{"text":"A"}'', JObject [(''text'', JString ''A'')]),
                  (''{"text":"B"}'', JObject [(''text'', JString ''B'')])])
       initialClientState
       ([sseOf ''text'' ''{"text":"A"}''] @ [sseOf ''replace_response'' ''{"text":"B"}'']))) = [''B'']
   \<and> getFinalResponse 2 ''bot''
       (\<lambda>i. performQueryRequest
          (tableEnv [(''{"text":"A"}'', JObject [(''text'', JString ''A'')]),
                     (''{"text":"B"}'', JObject [(''text'', JString ''B'')])])
          [sseOf ''text'' ''{"text":"A"}'', sseOf ''replace_response'' ''{"text":"B"}'', sseOf ''done'' ''{}'']
          None)
     = Inr ''B''\<close>
proof -
  let ?env = \<open>tableEnv [(''{"text":"A"}'', JObject [(''text'', JString ''A'')]),
                  (''{"text":"B"}'', JObject [(''text'', JString ''B'')])]\<close>
  let ?a = \<open>sseOf ''text'' ''{"text":"A"}''\<close>
  let ?b = \<open>sseOf ''replace_response'' ''{"text":"B"}''\<close>
  let ?d = \<open>sseOf ''done'' ''{}''\<close>
  let ?ja = "JObject [(''text'', JString ''A'')]"
  let ?jb = "JObject [(''text'', JString ''B'')]"
  let ?ra = \<open>textResponse ?env ''A'' ''text'' (Some ''{"text":"A"}'') False False\<close>
  have p: \<open>env_parse ?env ''{"text":"A"}'' = Some ?ja\<close> \<open>env_parse ?env ''{"text":"B"}'' = Some ?jb\<close>
    by (simp_all add: tableEnv_def)
  have e: "sse_event ?a = Some ''text''" \<open>sse_data ?a = Some ''{"text":"A"}''\<close>
    "sse_event ?b = Some ''replace_response''" \<open>sse_data ?b = Some ''{"text":"B"}''\<close>
    "sse_event ?d = Some ''done''"
    by (simp_all add: sseOf_def)
  have j: "isObjectJ ?ja" "isObjectJ ?jb"
    "getField ?ja ''text'' = Some (JString ''A'')" "getField ?jb ''text'' = Some (JString ''B'')"
    by (simp_all add: isObjectJ_def getField_def)
  have pre: "clientLoop ?env initialClientState [?a]
      = (([?ra], Continue), initialClientState\<lparr>eventCount := 1, chunks := [''A'']\<rparr>)"
    using clientStep_text [of ?a _ ?env ?ja "''A''" initialClientState] e p j
    by (simp add: initialClientState_def)
  note inst = replace_semantics [of ?b _ ?env ?jb "''B''" initialClientState "[?a]" "[?ra]"
      "initialClientState\<lparr>eventCount := 1, chunks := [''A'']\<rparr>"
      2 ?a _ ?ja "''A''" ?b _ ?jb "''B''" ?d "''bot''" None]
  show ?thesis
    using inst p e j pre by simp
qed

section \<open>Tool-call aggregation\<close>










lemma update_absent: "k \<notin> fst ` set al \<Longrightarrow> AList.update k v al = al @ [(k, v)]"
  by (induction al) auto















section \<open>Handler errors and the terminal event\<close>

lemma errorEvent_boom:
  \<open>errorEvent (Some ''boom'') (Some False) None
     = \<lparr>sse_data = Some ''{"allow_retry":false,"text":"boom"}'', sse_event = Some ''error'',
        sse_id = None, sse_retry = None\<rparr>\<close>
  by code_simp

lemma errorData_boom:
  "errorData (Some ''boom'') (Some False) None
     = JObject [(''allow_retry'', JBool False), (''text'', JString ''boom'')]"
  by code_simp

lemma runSteps_yields:
  "runSteps table (map Yield its) = (concat (map translateItem its), table)"
  by (induction its) simp_all

text \<open>
  C2, as amended. For every handler and every state of the table, the events of
  \<open>handleQuery\<close> end with the \<open>done\<close> event, whose data is \<open>{}\<close>. When the handler throws
  an error with message \<open>msg\<close>, the events contain the \<open>error\<close> event for \<open>msg\<close> with
  \<open>allowRetry = false\<close>; when the handler only yields and the request has no pending
  attachment entry, the events are those of the yielded objects, then that error event,
  then \<open>done\<close>. For the message \<open>boom\<close> the data of the error event is
  \<open>{"allow_retry":false,"text":"boom"}\<close>: the key is in snake case.
\<close>

theorem handler_error_then_done:
  \<open>fst (handleQuery table messageId handler) \<noteq> []
   \<and> last (fst (handleQuery table messageId handler)) = doneEvent
   \<and> sse_event doneEvent = Some ''done'' \<and> sse_data doneEvent = Some ''{}''
   \<and> (ending handler = Throws (Some msg)
        \<longrightarrow> errorEvent (Some msg) (Some False) None \<in> set (fst (handleQuery table messageId handler)))
   \<and> (table messageId = None \<and> steps handler = map Yield its \<and> ending handler = Throws (Some msg)
        \<longrightarrow> fst (handleQuery table messageId handler)
            = concat (map translateItem its) @ [errorEvent (Some msg) (Some False) None, doneEvent])
   \<and> errorEvent (Some ''boom'') (Some False) None
        = \<lparr>sse_data = Some ''{"allow_retry":false,"text":"boom"}'', sse_event = Some ''error'',
           sse_id = None, sse_retry = None\<rparr>\<close>
proof (intro conjI impI)
  show "fst (handleQuery table messageId handler) \<noteq> []"
    and "last (fst (handleQuery table messageId handler)) = doneEvent"
    by (simp_all add: handleQuery_def split: prod.splits)
  show "sse_event doneEvent = Some ''done''" and "sse_data doneEvent = Some ''{}''"
    by (simp_all add: doneEvent_def)
  show "errorEvent (Some msg) (Some False) None \<in> set (fst (handleQuery table messageId handler))"
    if "ending handler = Throws (Some msg)"
    using that by (simp add: handleQuery_def split: prod.splits)
  show "fst (handleQuery table messageId handler)
            = concat (map translateItem its) @ [errorEvent (Some msg) (Some False) None, doneEvent]"
    if "table messageId = None \<and> steps handler = map Yield its \<and> ending handler = Throws (Some msg)"
    using that
    by (simp add: handleQuery_def runSteps_yields processPendingAttachmentRequests_def)
  show \<open>errorEvent (Some ''boom'') (Some False) None
        = \<lparr>sse_data = Some ''{"allow_retry":false,"text":"boom"}'', sse_event = Some ''error'',
           sse_id = None, sse_retry = None\<rparr>\<close>
    by (rule errorEvent_boom)
qed

theorem handler_error_then_done_witness:
  \<open>fst (handleQuery Map.empty ''m1'' \<lparr>steps = map Yield [textItem ''hi''], ending = Throws (Some ''boom'')\<rparr>)
     = [textEvent ''hi'',
        \<lparr>sse_data = Some ''{"allow_retry":false,"text":"boom"}'', sse_event = Some ''error'',
         sse_id = None, sse_retry = None\<rparr>,
        doneEvent]\<close>
proof -
  have t: "concat (map translateItem [textItem ''hi'']) = [textEvent ''hi'']"
    by (simp add: translateItem_def textItem_def nullish_def)
  show ?thesis
    using handler_error_then_done [of Map.empty "''m1''"
        "\<lparr>steps = map Yield [textItem ''hi''], ending = Throws (Some ''boom'')\<rparr>" "''boom''" "[textItem ''hi'']"] t
    by simp
qed

text \<open>
  The claim as stated fails: the object serialised into the error event has the key
  \<open>allow_retry\<close>, which \<open>modelDump\<close> makes of \<open>allowRetry\<close>, and no key \<open>allowRetry\<close>.
\<close>

theorem error_event_key_counterexample:
  \<open>fst (handleQuery Map.empty ''m1'' \<lparr>steps = [], ending = Throws (Some ''boom'')\<rparr>)
     = [\<lparr>sse_data = Some ''{"allow_retry":false,"text":"boom"}'', sse_event = Some ''error'',
         sse_id = None, sse_retry = None\<rparr>,
        \<lparr>sse_data = Some ''{}'', sse_event = Some ''done'', sse_id = None, sse_retry = None\<rparr>]
   \<and> errorData (Some ''boom'') (Some False) None
     = JObject [(''allow_retry'', JBool False), (''text'', JString ''boom'')]
   \<and> getField (errorData (Some ''boom'') (Some False) None) ''allowRetry'' = None\<close>
  by code_simp

section \<open>Lifetime of the pending attachment table\<close>

text \<open>
  C10. The claim is that no entry of the pending table survives the response of its
  query, also when an upload fails. On a query with message id \<open>m1\<close> whose handler
  awaits one upload for \<open>m1\<close> that fails, and catches the failure, \<open>handleQuery\<close> emits
  the error event of the drain and \<open>done\<close>, and the entry of \<open>m1\<close> is still in the table:
  \<open>Promise.all\<close> throws before the \<open>delete\<close>. With an upload that succeeds the entry
  is removed.
\<close>

theorem pending_entry_survives_failed_upload:
  \<open>snd (handleQuery Map.empty ''m1''
        \<lparr>steps = [Attach ''m1'' \<lparr>task_id = 0, task_error = Some ''upload failed''\<rparr>], ending = Returns\<rparr>) ''m1''
     = Some [\<lparr>task_id = 0, task_error = Some ''upload failed''\<rparr>]
   \<and> fst (handleQuery Map.empty ''m1''
        \<lparr>steps = [Attach ''m1'' \<lparr>task_id = 0, task_error = Some ''upload failed''\<rparr>], ending = Returns\<rparr>)
     = [\<lparr>sse_data = Some ''{"allow_retry":false,"text":"upload failed"}'', sse_event = Some ''error'',
         sse_id = None, sse_retry = None\<rparr>,
        \<lparr>sse_data = Some ''{}'', sse_event = Some ''done'', sse_id = None, sse_retry = None\<rparr>]
   \<and> snd (handleQuery Map.empty ''m1''
        \<lparr>steps = [Attach ''m1'' \<lparr>task_id = 0, task_error = None\<rparr>], ending = Returns\<rparr>) ''m1''
     = None\<close>
  by code_simp

section \<open>Codec round trip\<close>

declare drainBuffer.simps [simp del]

lemma indexOf_append_hit: "c \<notin> set l \<Longrightarrow> indexOf c (l @ c # rest) = Some (length l)"
  by (induction l) auto

lemma drainBuffer_nil: "drainBuffer st [] = ([], st, [])"
  by (simp add: drainBuffer.simps)

lemma drainBuffer_line:
  assumes "LF \<notin> set l"
  shows "drainBuffer st (l @ LF # rest) =
     ((case fst (decode st (trim l)) of None \<Rightarrow> [] | Some e \<Rightarrow> [e])
        @ fst (drainBuffer (snd (decode st (trim l))) rest),
      snd (drainBuffer (snd (decode st (trim l))) rest))"
  using assms
  by (subst drainBuffer.simps) (simp add: indexOf_append_hit split: prod.splits)

lemma drainBuffer_lines:
  assumes "\<forall>l\<in>set ls. LF \<notin> set l"
  shows "drainBuffer st (concat (map (\<lambda>l. l @ [LF]) ls))
       = (fst (decodeLines st (map trim ls)), snd (decodeLines st (map trim ls)), [])"
  using assms
proof (induction ls arbitrary: st)
  case Nil
  then show ?case by (simp add: drainBuffer_nil)
next
  case (Cons l ls)
  have "drainBuffer st (concat (map (\<lambda>l. l @ [LF]) (l # ls)))
      = drainBuffer st (l @ LF # concat (map (\<lambda>l. l @ [LF]) ls))" by simp
  also have "\<dots> = ((case fst (decode st (trim l)) of None \<Rightarrow> [] | Some e \<Rightarrow> [e])
        @ fst (drainBuffer (snd (decode st (trim l))) (concat (map (\<lambda>l. l @ [LF]) ls))),
      snd (drainBuffer (snd (decode st (trim l))) (concat (map (\<lambda>l. l @ [LF]) ls))))"
    using Cons.prems by (intro drainBuffer_line) simp
  finally show ?case
    using Cons.IH [of "snd (decode st (trim l))"] Cons.prems
    by (simp split: prod.splits)
qed

lemma iterSSE_single:
  "iterSSE [body] = fst (drainBuffer newSSEDecoder body)"
  by (simp add: iterSSE_def split: prod.splits)


lemma isWhiteSpace_CR: "isWhiteSpace CR"
  by (simp add: isWhiteSpace_def CR_def)

lemma trim_line:
  assumes "l \<noteq> []" "\<not> isWhiteSpace (hd l)" "\<not> isWhiteSpace (last l)"
  shows "trim (l @ [CR]) = l"
proof -
  obtain x xs where l: "l = x # xs" using assms(1) by (cases l) auto
  have 1: "dropWhile isWhiteSpace (l @ [CR]) = l @ [CR]"
    using assms(2) l by simp
  obtain ys y where ys: "l = ys @ [y]" using assms(1) by (cases l rule: rev_cases) auto
  have 2: "dropWhile isWhiteSpace (rev l) = rev l"
    using assms(3) ys by simp
  show ?thesis
    by (simp add: trim_def 1 2 isWhiteSpace_CR)
qed

lemma trim_blank: "trim ([] @ [CR]) = []"
  by (simp add: trim_def isWhiteSpace_CR)

lemma sep_chars: "\<not> isWhiteSpace (CHR '':'')" "isWhiteSpace (CHR '' '')"
  by (simp_all add: isWhiteSpace_def)

lemma trim_field:
  assumes "f \<noteq> []" "\<not> isWhiteSpace (hd f)" "noTrailingSpace v"
  shows "trim ((f @ '': '' @ v) @ [CR]) = (if v = [] then f @ '':'' else f @ '': '' @ v)"
proof (cases "v = []")
  case True
  have "trim ((f @ '':'') @ [CHR '' '', CR]) = f @ '':''"
  proof -
    obtain x xs where f: "f = x # xs" using assms(1) by (cases f) auto
    have 1: "dropWhile isWhiteSpace ((f @ '':'') @ [CHR '' '', CR]) = (f @ '':'') @ [CHR '' '', CR]"
      using assms(2) f by simp
    show ?thesis
      by (simp add: trim_def 1 isWhiteSpace_CR sep_chars del: append_assoc)
  qed
  then show ?thesis using True by simp
next
  case False
  then have "\<not> isWhiteSpace (last v)" using assms(3) by (simp add: noTrailingSpace_def)
  then have "trim ((f @ '': '' @ v) @ [CR]) = f @ '': '' @ v"
    using assms(1,2) False by (intro trim_line) simp_all
  then show ?thesis using False by simp
qed

lemma extract_field:
  assumes "CHR '':'' \<notin> set f"
  shows "extractFieldAndValue (f @ '':'') = (f, [])"
    and "extractFieldAndValue (f @ '': '' @ v) = (f, v)"
proof -
  have "indexOf (CHR '':'') (f @ CHR '':'' # []) = Some (length f)"
    using assms by (rule indexOf_append_hit)
  then show "extractFieldAndValue (f @ '':'') = (f, [])"
    by (simp add: extractFieldAndValue_def startsWith_def)
  have "indexOf (CHR '':'') (f @ CHR '':'' # (CHR '' '' # v)) = Some (length f)"
    using assms by (rule indexOf_append_hit)
  then show "extractFieldAndValue (f @ '': '' @ v) = (f, v)"
    by (simp add: extractFieldAndValue_def startsWith_def)
qed

lemma extract_trimmed_field:
  assumes "f \<noteq> []" "\<not> isWhiteSpace (hd f)" "CHR '':'' \<notin> set f" "noTrailingSpace v"
  shows "extractFieldAndValue (trim ((f @ '': '' @ v) @ [CR])) = (f, v)"
    and "truthy (trim ((f @ '': '' @ v) @ [CR]))"
    and "\<not> startsWith (trim ((f @ '': '' @ v) @ [CR])) (CHR '':'')"
proof -
  have t: "trim ((f @ '': '' @ v) @ [CR]) = (if v = [] then f @ '':'' else f @ '': '' @ v)"
    using assms(1,2,4) by (rule trim_field)
  show "extractFieldAndValue (trim ((f @ '': '' @ v) @ [CR])) = (f, v)"
    unfolding t using extract_field [OF assms(3)] by simp
  show "truthy (trim ((f @ '': '' @ v) @ [CR]))"
    unfolding t using assms(1) by (simp add: truthy_def)
  obtain x xs where f: "f = x # xs" using assms(1) by (cases f) auto
  then have "x \<noteq> CHR '':''" using assms(3) by auto
  then show "\<not> startsWith (trim ((f @ '': '' @ v) @ [CR])) (CHR '':'')"
    unfolding t using f by (simp add: startsWith_def)
qed


declare decimalDigits.simps [simp del]

lemma digit_char_props:
  assumes "d < 10"
  shows "isDecDigit (digit_char d)" and "digitValue (digit_char d) = d"
    and "\<not> isWhiteSpace (digit_char d)" and "digit_char d \<noteq> CHR ''-''" and "digit_char d \<noteq> CHR ''+''"
    and "digit_char d \<noteq> CHR ''x''" and "digit_char d \<noteq> CHR ''X''" and "digit_char d \<noteq> LF"
proof -
  have o: "of_char (digit_char d) = 48 + d"
    using assms by (simp add: digit_char_def)
  show "isDecDigit (digit_char d)" using assms by (simp add: isDecDigit_def o)
  show "digitValue (digit_char d) = d" using assms by (simp add: digitValue_def o Let_def)
  show "\<not> isWhiteSpace (digit_char d)" using assms by (simp add: isWhiteSpace_def o)
  have "of_char (digit_char d) \<noteq> (of_char (CHR ''-'') :: nat)"
    "of_char (digit_char d) \<noteq> (of_char (CHR ''+'') :: nat)"
    "of_char (digit_char d) \<noteq> (of_char (CHR ''x'') :: nat)"
    "of_char (digit_char d) \<noteq> (of_char (CHR ''X'') :: nat)"
    "of_char (digit_char d) \<noteq> (of_char LF :: nat)"
    using assms by (simp_all add: o LF_def)
  then show "digit_char d \<noteq> CHR ''-''" and "digit_char d \<noteq> CHR ''+''"
    and "digit_char d \<noteq> CHR ''x''" and "digit_char d \<noteq> CHR ''X''" and "digit_char d \<noteq> LF"
    by auto
qed

lemma decimalDigits_digits: "0 \<le> n \<Longrightarrow> c \<in> set (decimalDigits n) \<Longrightarrow> \<exists>d<10. c = digit_char d"
proof (induction n rule: decimalDigits.induct)
  case (1 n)
  show ?case
  proof (cases "n < 10")
    case True
    then have "c = digit_char (nat n)" using "1.prems" by (subst (asm) decimalDigits.simps) auto
    then show ?thesis using True by (intro exI [of _ "nat n"]) simp
  next
    case False
    then have "c \<in> set (decimalDigits (n div 10)) \<or> c = digit_char (nat (n mod 10))"
      using "1.prems" by (subst (asm) decimalDigits.simps) auto
    then show ?thesis
    proof
      assume "c \<in> set (decimalDigits (n div 10))"
      then show ?thesis using "1.IH" False "1.prems"(1) by simp
    next
      assume "c = digit_char (nat (n mod 10))"
      then show ?thesis by (intro exI [of _ "nat (n mod 10)"]) simp
    qed
  qed
qed

lemma decimalDigits_nonempty: "decimalDigits n \<noteq> []"
  by (subst decimalDigits.simps) simp

lemma digitsValue_snoc: "digitsValue r (ds @ [c]) = digitsValue r ds * r + int (digitValue c)"
  by (simp add: digitsValue_def)

lemma digitsValue_decimalDigits: "0 \<le> n \<Longrightarrow> digitsValue 10 (decimalDigits n) = n"
proof (induction n rule: decimalDigits.induct)
  case (1 n)
  show ?case
  proof (cases "n < 10")
    case True
    then show ?thesis using "1.prems"
      by (subst decimalDigits.simps) (simp add: digitsValue_def digit_char_props)
  next
    case False
    then have "digitsValue 10 (decimalDigits (n div 10)) = n div 10" using "1.IH" "1.prems" by simp
    then show ?thesis
      using False by (subst decimalDigits.simps) (simp add: digitsValue_snoc digit_char_props)
  qed
qed

lemma decimalDigits_length: "0 < k \<Longrightarrow> n < 10 ^ k \<Longrightarrow> length (decimalDigits n) \<le> k"
proof (induction n arbitrary: k rule: decimalDigits.induct)
  case (1 n)
  show ?case
  proof (cases "n < 10")
    case True
    then show ?thesis using "1.prems" by (subst decimalDigits.simps) simp
  next
    case False
    then have k1: "1 < k" using "1.prems" by (cases "k = 1") auto
    then obtain j where j: "k = Suc j" "0 < j" by (cases k) auto
    have "n div 10 < 10 ^ j" using "1.prems"(2) j by simp
    then have "length (decimalDigits (n div 10)) \<le> j" using "1.IH" False j by simp
    then show ?thesis using False j by (subst decimalDigits.simps) simp
  qed
qed

lemma decimalDigits_upper: "0 \<le> n \<Longrightarrow> n < 10 ^ length (decimalDigits n)"
proof (induction n rule: decimalDigits.induct)
  case (1 n)
  show ?case
  proof (cases "n < 10")
    case True
    then show ?thesis by (subst decimalDigits.simps) simp
  next
    case False
    then have "n div 10 < 10 ^ length (decimalDigits (n div 10))" using "1.IH" "1.prems" by simp
    then have "n < 10 * 10 ^ length (decimalDigits (n div 10))" by simp
    then show ?thesis using False by (subst decimalDigits.simps) simp
  qed
qed

lemma decimalDigits_all_digits: "0 \<le> n \<Longrightarrow> takeWhile isDecDigit (decimalDigits n) = decimalDigits n"
  using decimalDigits_digits digit_char_props(1) by (fastforce simp: takeWhile_eq_all_conv)

lemma decimalDigits_head:
  assumes "0 \<le> n"
  shows "\<not> isWhiteSpace (hd (decimalDigits n))" "hd (decimalDigits n) \<noteq> CHR ''-''"
    "hd (decimalDigits n) \<noteq> CHR ''+''"
proof -
  have "hd (decimalDigits n) \<in> set (decimalDigits n)" using decimalDigits_nonempty by simp
  then obtain d where "d < 10" "hd (decimalDigits n) = digit_char d"
    using decimalDigits_digits assms by blast
  then show "\<not> isWhiteSpace (hd (decimalDigits n))" "hd (decimalDigits n) \<noteq> CHR ''-''"
    "hd (decimalDigits n) \<noteq> CHR ''+''"
    using digit_char_props by simp_all
qed

lemma decimalDigits_not_hex:
  assumes "0 \<le> n"
  shows "take 2 (decimalDigits n) \<noteq> ''0x''" "take 2 (decimalDigits n) \<noteq> ''0X''"
proof -
  have x: "CHR ''x'' \<notin> set (decimalDigits n)"
    using decimalDigits_digits [OF assms, of "CHR ''x''"] digit_char_props(6) by metis
  have y: "CHR ''X'' \<notin> set (decimalDigits n)"
    using decimalDigits_digits [OF assms, of "CHR ''X''"] digit_char_props(7) by metis
  have "set (take 2 (decimalDigits n)) \<subseteq> set (decimalDigits n)" by (rule set_take_subset)
  then show "take 2 (decimalDigits n) \<noteq> ''0x''" "take 2 (decimalDigits n) \<noteq> ''0X''"
    using x y by auto
qed

lemma parseInt_decimalDigits:
  assumes "0 \<le> n"
  shows "parseInt (decimalDigits n) = toNumber False n"
proof -
  obtain c cs where s: "decimalDigits n = c # cs"
    using decimalDigits_nonempty by (cases "decimalDigits n") auto
  have h: "\<not> isWhiteSpace c" "c \<noteq> CHR ''-''" "c \<noteq> CHR ''+''"
    using decimalDigits_head [OF assms] s by simp_all
  have d: "dropWhile isWhiteSpace (decimalDigits n) = decimalDigits n" using s h by simp
  have st: "\<not> startsWith (decimalDigits n) (CHR ''-'')" "\<not> startsWith (decimalDigits n) (CHR ''+'')"
    using s h by (simp_all add: startsWith_def)
  show ?thesis
    unfolding parseInt_def Let_def d
    using st decimalDigits_not_hex [OF assms] decimalDigits_nonempty [of n] assms
    by (simp add: decimalDigits_all_digits digitsValue_decimalDigits)
qed

lemma parseInt_minus_decimalDigits:
  assumes "0 \<le> n"
  shows "parseInt (CHR ''-'' # decimalDigits n) = toNumber True n"
proof -
  have w: "\<not> isWhiteSpace (CHR ''-'')" by (simp add: isWhiteSpace_def)
  show ?thesis
    unfolding parseInt_def Let_def
    using decimalDigits_not_hex [OF assms] decimalDigits_nonempty [of n] w assms
    by (simp add: startsWith_def decimalDigits_all_digits digitsValue_decimalDigits)
qed

lemma toDouble_1e21: "toDouble (10 ^ 21) = 10 ^ 21"
  by code_simp

lemma candidates_props:
  assumes "v \<in> set (candidates x p)" "0 \<le> x"
  shows "toDouble v = x" and "0 \<le> v" and "v \<le> (x div 10 ^ p + 1) * 10 ^ p"
proof -
  let ?lo = "x div 10 ^ p * 10 ^ p"
  have m: "v \<in> {?lo, ?lo + 10 ^ p}" and t: "toDouble v = x"
    using assms(1) by (auto simp: candidates_def Let_def split: if_splits)
  show "toDouble v = x" by (rule t)
  have lo0: "0 \<le> ?lo" using assms(2) by (simp add: pos_imp_zdiv_nonneg_iff)
  then show "0 \<le> v" using m by auto
  show "v \<le> (x div 10 ^ p + 1) * 10 ^ p" using m by (auto simp: algebra_simps)
qed

lemma shortestDecimal_props:
  assumes "integerBelow1e21 x" "0 \<le> x"
  shows "toDouble (shortestDecimal x) = x" and "0 \<le> shortestDecimal x"
    and "shortestDecimal x < 10 ^ 21"
proof -
  have dx: "toDouble x = x" and bx: "x < 10 ^ 21"
    using assms by (simp_all add: integerBelow1e21_def)
  have "toDouble (shortestDecimal x) = x \<and> 0 \<le> shortestDecimal x \<and> shortestDecimal x < 10 ^ 21"
  proof (cases "x < 2 ^ 53")
    case True
    then show ?thesis using dx bx assms(2) by (simp add: shortestDecimal_def)
  next
    case False
    let ?cs = "concat (map (candidates x) (rev [0..<length (decimalDigits x)]))"
    show ?thesis
    proof (cases ?cs)
      case Nil
      have "shortestDecimal x = x" unfolding shortestDecimal_def Nil using False by simp
      then show ?thesis using dx bx assms(2) by simp
    next
      case (Cons v vs)
      have sv: "shortestDecimal x = v" unfolding shortestDecimal_def Cons using False by simp
      have "v \<in> set ?cs" using Cons by simp
      then obtain p where p: "p < length (decimalDigits x)" "v \<in> set (candidates x p)" by auto
      have c: "toDouble v = x" "0 \<le> v" "v \<le> (x div 10 ^ p + 1) * 10 ^ p"
        using candidates_props [OF p(2) assms(2)] by simp_all
      have "length (decimalDigits x) \<le> 21" using decimalDigits_length [of 21 x] bx by simp
      then have p21: "p \<le> 21" using p(1) by simp
      then obtain j where j: "21 = p + j" using le_Suc_ex by blast
      have d1: "x < 10 ^ j * 10 ^ p" using bx j by (metis power_add mult.commute)
      have d2: "x div 10 ^ p * 10 ^ p + x mod 10 ^ p = x" by (rule div_mult_mod_eq)
      have d3: "0 \<le> x mod 10 ^ p" by simp
      have "x div 10 ^ p * 10 ^ p < 10 ^ j * 10 ^ p" using d1 d2 d3 by linarith
      then have "x div 10 ^ p < 10 ^ j" by (simp add: mult_less_cancel_right)
      then have "(x div 10 ^ p + 1) * 10 ^ p \<le> 10 ^ j * 10 ^ p"
        by (intro mult_right_mono) simp_all
      then have "v \<le> 10 ^ 21" using c(3) j by (metis order_trans power_add mult.commute)
      moreover have "v \<noteq> 10 ^ 21" using c(1) toDouble_1e21 bx by auto
      ultimately have "v < 10 ^ 21" by simp
      then show ?thesis using sv c by simp
    qed
  qed
  then show "toDouble (shortestDecimal x) = x" and "0 \<le> shortestDecimal x"
    and "shortestDecimal x < 10 ^ 21" by simp_all
qed

lemma magnitudeToString_plain:
  assumes "integerBelow1e21 x" "0 \<le> x"
  shows "magnitudeToString x = decimalDigits (shortestDecimal x)"
proof -
  have "length (decimalDigits (shortestDecimal x)) \<le> 21"
    using decimalDigits_length [of 21 "shortestDecimal x"] shortestDecimal_props(3) [OF assms] by simp
  then show ?thesis by (simp add: magnitudeToString_def Let_def)
qed

lemma integerBelow1e21_abs: "integerBelow1e21 r \<Longrightarrow> integerBelow1e21 \<bar>r\<bar>"
  by (simp add: integerBelow1e21_def)

lemma toNumber_double:
  assumes "toDouble v = x" "x < 10 ^ 21"
  shows "toNumber neg v = Finite (if neg then - x else x)"
proof -
  have "(10::int) ^ 21 < 2 ^ 1024" by simp
  then have "\<not> 2 ^ 1024 \<le> x" using assms(2) by linarith
  then show ?thesis using assms(1) by (simp add: toNumber_def Let_def)
qed

lemma parseInt_numberToString:
  assumes "integerBelow1e21 r"
  shows "parseInt (numberToString (Finite r)) = Finite r"
proof -
  let ?v = "shortestDecimal \<bar>r\<bar>"
  have a: "integerBelow1e21 \<bar>r\<bar>" "0 \<le> \<bar>r\<bar>" using assms by (simp_all add: integerBelow1e21_abs)
  have v: "toDouble ?v = \<bar>r\<bar>" "0 \<le> ?v" using shortestDecimal_props [OF a] by simp_all
  have b: "\<bar>r\<bar> < 10 ^ 21" using assms by (simp add: integerBelow1e21_def)
  show ?thesis
  proof (cases "r < 0")
    case True
    then have "numberToString (Finite r) = CHR ''-'' # decimalDigits ?v"
      using magnitudeToString_plain [OF a] by (simp add: numberToString_def)
    then show ?thesis
      using parseInt_minus_decimalDigits [OF v(2)] toNumber_double [OF v(1) b, of True] True by simp
  next
    case False
    then have "numberToString (Finite r) = decimalDigits ?v"
      using magnitudeToString_plain [OF a] by (simp add: numberToString_def)
    then show ?thesis
      using parseInt_decimalDigits [OF v(2)] toNumber_double [OF v(1) b, of False] False by simp
  qed
qed

lemma numberToString_shape:
  assumes "integerBelow1e21 r"
  shows "\<exists>v\<ge>0. numberToString (Finite r) = (if r < 0 then CHR ''-'' # decimalDigits v else decimalDigits v)"
proof -
  have a: "integerBelow1e21 \<bar>r\<bar>" "0 \<le> \<bar>r\<bar>" using assms by (simp_all add: integerBelow1e21_abs)
  have "numberToString (Finite r)
      = (if r < 0 then CHR ''-'' # magnitudeToString \<bar>r\<bar> else magnitudeToString \<bar>r\<bar>)"
    by (simp add: numberToString_def)
  then show ?thesis
    unfolding magnitudeToString_plain [OF a]
    using shortestDecimal_props(2) [OF a] by blast
qed

lemma numberToString_noTrailingSpace:
  assumes "integerBelow1e21 r"
  shows "noTrailingSpace (numberToString (Finite r))"
proof -
  obtain v where v: "0 \<le> v"
    "numberToString (Finite r) = (if r < 0 then CHR ''-'' # decimalDigits v else decimalDigits v)"
    using numberToString_shape [OF assms] by blast
  have "last (decimalDigits v) \<in> set (decimalDigits v)" using decimalDigits_nonempty by simp
  then obtain d where "d < 10" "last (decimalDigits v) = digit_char d"
    using decimalDigits_digits v(1) by blast
  then have "\<not> isWhiteSpace (last (decimalDigits v))" using digit_char_props(3) by simp
  then show ?thesis using decimalDigits_nonempty v(2) by (simp add: noTrailingSpace_def)
qed

lemma numberToString_LF_free:
  assumes "integerBelow1e21 r"
  shows "LF \<notin> set (numberToString (Finite r))"
proof -
  obtain v where v: "0 \<le> v"
    "numberToString (Finite r) = (if r < 0 then CHR ''-'' # decimalDigits v else decimalDigits v)"
    using numberToString_shape [OF assms] by blast
  have "LF \<notin> set (decimalDigits v)"
    using decimalDigits_digits [OF v(1), of LF] digit_char_props(8) by metis
  then show ?thesis using v(2) by (simp add: LF_def)
qed

lemma safe_integerBelow1e21: "\<bar>r\<bar> < 2 ^ 53 \<Longrightarrow> integerBelow1e21 r"
  by (simp add: integerBelow1e21_def toDouble_def)


lemma encode_wireLines:
  "encodeServerSentEvent e [] sep = concat (map (\<lambda>l. l @ sep) (wireLines e))"
  by (simp add: encodeServerSentEvent_def wireLines_def fieldLine_def truthy_def comp_def split: option.splits)

lemma split_LINE_SEP_Cons:
  "split_LINE_SEP (c # cs) =
     (if c = CR then
        (case cs of
           [] \<Rightarrow> [] # split_LINE_SEP cs
         | d # ds \<Rightarrow> if d = LF then [] # split_LINE_SEP ds else [] # split_LINE_SEP cs)
      else if c = LF then [] # split_LINE_SEP cs
      else (case split_LINE_SEP cs of
              [] \<Rightarrow> [[c]]
            | l # ls \<Rightarrow> (c # l) # ls))"
  by (rule split_LINE_SEP.simps)

declare split_LINE_SEP.simps(2) [simp del]

lemma split_LINE_SEP_nonempty: "split_LINE_SEP d \<noteq> []"
proof (cases d)
  case Nil
  then show ?thesis by simp
next
  case (Cons c cs)
  show ?thesis
    unfolding Cons by (subst split_LINE_SEP_Cons) (simp split: list.split)
qed

lemma split_LINE_SEP_CRLF: "split_LINE_SEP (CR # LF # ds) = [] # split_LINE_SEP ds"
  by (subst split_LINE_SEP_Cons) simp

lemma split_LINE_SEP_CR: "cs = [] \<or> hd cs \<noteq> LF \<Longrightarrow> split_LINE_SEP (CR # cs) = [] # split_LINE_SEP cs"
  by (subst split_LINE_SEP_Cons) (auto split: list.split)

lemma split_LINE_SEP_LF: "split_LINE_SEP (LF # cs) = [] # split_LINE_SEP cs"
  by (subst split_LINE_SEP_Cons) (simp add: CR_def LF_def)

lemma split_LINE_SEP_other:
  "c \<noteq> CR \<Longrightarrow> c \<noteq> LF \<Longrightarrow>
     split_LINE_SEP (c # cs) = (c # hd (split_LINE_SEP cs)) # tl (split_LINE_SEP cs)"
  using split_LINE_SEP_nonempty [of cs]
  by (subst split_LINE_SEP_Cons) (cases "split_LINE_SEP cs"; simp)

lemma split_LINE_SEP_plain:
  "l \<in> set (split_LINE_SEP d) \<Longrightarrow> CR \<notin> set l \<and> LF \<notin> set l"
proof (induction "length d" arbitrary: d l rule: less_induct)
  case less
  show ?case
  proof (cases d)
    case Nil
    then show ?thesis using less.prems by simp
  next
    case (Cons c cs)
    have ih: "CR \<notin> set l' \<and> LF \<notin> set l'"
      if "length d' \<le> length cs" "l' \<in> set (split_LINE_SEP d')" for d' l'
      using less.hyps [of d' l'] Cons that by simp
    consider (crlf) ds where "c = CR" "cs = LF # ds"
      | (cr) "c = CR" "cs = [] \<or> hd cs \<noteq> LF"
      | (lf) "c = LF"
      | (other) "c \<noteq> CR" "c \<noteq> LF"
      by (cases cs) auto
    then show ?thesis
    proof cases
      case crlf
      then have "split_LINE_SEP d = [] # split_LINE_SEP ds"
        using Cons by (simp add: split_LINE_SEP_CRLF)
      then have "l = [] \<or> l \<in> set (split_LINE_SEP ds)"
        using less.prems by auto
      then show ?thesis using ih [of ds l] crlf by auto
    next
      case cr
      then have "split_LINE_SEP d = [] # split_LINE_SEP cs"
        using Cons by (simp add: split_LINE_SEP_CR)
      then have "l = [] \<or> l \<in> set (split_LINE_SEP cs)"
        using less.prems by auto
      then show ?thesis using ih [of cs l] by auto
    next
      case lf
      then have "split_LINE_SEP d = [] # split_LINE_SEP cs"
        using Cons by (simp add: split_LINE_SEP_LF)
      then have "l = [] \<or> l \<in> set (split_LINE_SEP cs)"
        using less.prems by auto
      then show ?thesis using ih [of cs l] by auto
    next
      case other
      then have "split_LINE_SEP d = (c # hd (split_LINE_SEP cs)) # tl (split_LINE_SEP cs)"
        using Cons by (simp add: split_LINE_SEP_other)
      then have "l = c # hd (split_LINE_SEP cs) \<or> l \<in> set (tl (split_LINE_SEP cs))"
        using less.prems by auto
      moreover have "hd (split_LINE_SEP cs) \<in> set (split_LINE_SEP cs)"
        using split_LINE_SEP_nonempty by simp
      moreover have "set (tl (split_LINE_SEP cs)) \<subseteq> set (split_LINE_SEP cs)"
        by (cases "split_LINE_SEP cs") auto
      ultimately show ?thesis using ih [of cs] other by auto
    qed
  qed
qed

lemma join_Cons_char: "join sep ((c # l) # ls) = c # join sep (l # ls)"
  by (cases ls) simp_all

lemma join_empty_first: "ls \<noteq> [] \<Longrightarrow> join sep ([] # ls) = sep @ join sep ls"
  by (cases ls) simp_all

lemma join_split_LINE_SEP: "CR \<notin> set d \<Longrightarrow> join [LF] (split_LINE_SEP d) = d"
proof (induction d)
  case Nil
  then show ?case by simp
next
  case (Cons c cs)
  then have c: "c \<noteq> CR" and ih: "join [LF] (split_LINE_SEP cs) = cs" by auto
  show ?case
  proof (cases "c = LF")
    case True
    then show ?thesis
      using c ih by (simp only: True split_LINE_SEP_LF) (simp add: join_empty_first split_LINE_SEP_nonempty)
  next
    case False
    obtain l ls where s: "split_LINE_SEP cs = l # ls"
      using split_LINE_SEP_nonempty [of cs] by (cases "split_LINE_SEP cs") auto
    have "split_LINE_SEP (c # cs) = (c # l) # ls"
      using False c s by (simp add: split_LINE_SEP_other)
    then show ?thesis
      using ih s by (simp add: join_Cons_char)
  qed
qed

lemma replace_LINE_SEP_plain: "CR \<notin> set s \<Longrightarrow> LF \<notin> set s \<Longrightarrow> replace_LINE_SEP s = s"
  by (induction s) auto

lemma decode_field:
  assumes "f \<noteq> []" "\<not> isWhiteSpace (hd f)" "CHR '':'' \<notin> set f" "noTrailingSpace v"
  shows "decode st (arriving (fieldLine f v)) =
     (None,
      if f = ''event'' then st\<lparr>dec_event := v\<rparr>
      else if f = ''data'' then st\<lparr>dec_data := dec_data st @ [v]\<rparr>
      else if f = ''id'' then (if NUL \<notin> set v then st\<lparr>dec_lastEventId := v\<rparr> else st)
      else if f = ''retry'' then
        (let retryValue = parseInt v
         in if \<not> isNaN retryValue then st\<lparr>dec_retry := Some retryValue\<rparr> else st)
      else st)"
proof -
  have x: "extractFieldAndValue (arriving (fieldLine f v)) = (f, v)"
    and t: "truthy (arriving (fieldLine f v))"
    and c: "\<not> startsWith (arriving (fieldLine f v)) (CHR '':'')"
    using extract_trimmed_field [OF assms] unfolding arriving_def fieldLine_def by blast+
  show ?thesis
    unfolding decode_def by (simp only: x t c simp_thms if_False if_True prod.case)
qed

lemma letter_not_space:
  "\<not> isWhiteSpace (CHR ''i'')" "\<not> isWhiteSpace (CHR ''e'')" "\<not> isWhiteSpace (CHR ''d'')"
  "\<not> isWhiteSpace (CHR ''r'')"
  by (simp_all add: isWhiteSpace_def)

lemma decode_id_line:
  assumes "noTrailingSpace v" "NUL \<notin> set v"
  shows "decode st (arriving (fieldLine ''id'' v)) = (None, st\<lparr>dec_lastEventId := v\<rparr>)"
proof -
  have "decode st (arriving (fieldLine ''id'' v)) =
     (None,
      if ''id'' = ''event'' then st\<lparr>dec_event := v\<rparr>
      else if ''id'' = ''data'' then st\<lparr>dec_data := dec_data st @ [v]\<rparr>
      else if ''id'' = ''id'' then (if NUL \<notin> set v then st\<lparr>dec_lastEventId := v\<rparr> else st)
      else if ''id'' = ''retry'' then
        (let retryValue = parseInt v
         in if \<not> isNaN retryValue then st\<lparr>dec_retry := Some retryValue\<rparr> else st)
      else st)"
    using assms(1) by (intro decode_field) (simp_all add: letter_not_space)
  then show ?thesis using assms(2) by simp
qed

lemma decode_event_line:
  assumes "noTrailingSpace v"
  shows "decode st (arriving (fieldLine ''event'' v)) = (None, st\<lparr>dec_event := v\<rparr>)"
proof -
  have "decode st (arriving (fieldLine ''event'' v)) =
     (None,
      if ''event'' = ''event'' then st\<lparr>dec_event := v\<rparr>
      else if ''event'' = ''data'' then st\<lparr>dec_data := dec_data st @ [v]\<rparr>
      else if ''event'' = ''id'' then (if NUL \<notin> set v then st\<lparr>dec_lastEventId := v\<rparr> else st)
      else if ''event'' = ''retry'' then
        (let retryValue = parseInt v
         in if \<not> isNaN retryValue then st\<lparr>dec_retry := Some retryValue\<rparr> else st)
      else st)"
    using assms(1) by (intro decode_field) (simp_all add: letter_not_space)
  then show ?thesis by simp
qed

lemma decode_data_line:
  assumes "noTrailingSpace v"
  shows "decode st (arriving (fieldLine ''data'' v)) = (None, st\<lparr>dec_data := dec_data st @ [v]\<rparr>)"
proof -
  have "decode st (arriving (fieldLine ''data'' v)) =
     (None,
      if ''data'' = ''event'' then st\<lparr>dec_event := v\<rparr>
      else if ''data'' = ''data'' then st\<lparr>dec_data := dec_data st @ [v]\<rparr>
      else if ''data'' = ''id'' then (if NUL \<notin> set v then st\<lparr>dec_lastEventId := v\<rparr> else st)
      else if ''data'' = ''retry'' then
        (let retryValue = parseInt v
         in if \<not> isNaN retryValue then st\<lparr>dec_retry := Some retryValue\<rparr> else st)
      else st)"
    using assms(1) by (intro decode_field) (simp_all add: letter_not_space)
  then show ?thesis by simp
qed

lemma decode_retry_line:
  assumes "integerBelow1e21 r"
  shows "decode st (arriving (fieldLine ''retry'' (numberToString (Finite r))))
       = (None, st\<lparr>dec_retry := Some (Finite r)\<rparr>)"
proof -
  let ?v = "numberToString (Finite r)"
  have "decode st (arriving (fieldLine ''retry'' ?v)) =
     (None,
      if ''retry'' = ''event'' then st\<lparr>dec_event := ?v\<rparr>
      else if ''retry'' = ''data'' then st\<lparr>dec_data := dec_data st @ [?v]\<rparr>
      else if ''retry'' = ''id'' then (if NUL \<notin> set ?v then st\<lparr>dec_lastEventId := ?v\<rparr> else st)
      else if ''retry'' = ''retry'' then
        (let retryValue = parseInt ?v
         in if \<not> isNaN retryValue then st\<lparr>dec_retry := Some retryValue\<rparr> else st)
      else st)"
    using numberToString_noTrailingSpace [OF assms]
    by (intro decode_field) (simp_all add: letter_not_space)
  then show ?thesis by (simp add: parseInt_numberToString [OF assms] isNaN_def)
qed

lemma decode_blank_line: "decode st (arriving []) = decode st []"
  by (simp add: arriving_def trim_def isWhiteSpace_CR)

lemma decode_data_lines:
  "list_all noTrailingSpace cs \<Longrightarrow>
     decodeLines st (map arriving (map (fieldLine ''data'') cs))
       = ([], st\<lparr>dec_data := dec_data st @ cs\<rparr>)"
proof (induction cs arbitrary: st)
  case Nil
  then show ?case by simp
next
  case (Cons c cs)
  have d: "decode st (arriving (fieldLine ''data'' c)) = (None, st\<lparr>dec_data := dec_data st @ [c]\<rparr>)"
    using Cons.prems by (intro decode_data_line) simp
  have "decodeLines (st\<lparr>dec_data := dec_data st @ [c]\<rparr>) (map arriving (map (fieldLine ''data'') cs))
       = ([], st\<lparr>dec_data := dec_data st @ [c]\<rparr>\<lparr>dec_data := dec_data (st\<lparr>dec_data := dec_data st @ [c]\<rparr>) @ cs\<rparr>)"
    using Cons.prems by (intro Cons.IH) simp
  then show ?case
    using d by simp
qed


lemma fieldLine_LF_free: "LF \<notin> set f \<Longrightarrow> LF \<notin> set v \<Longrightarrow> LF \<notin> set (fieldLine f v @ [CR])"
  by (simp add: fieldLine_def LF_def CR_def)

lemma encodable_retry:
  assumes "encodable e" "sse_retry e = Some r"
  shows "\<exists>i. r = Finite i \<and> integerBelow1e21 i"
  using assms by (cases r) (simp_all add: encodable_def)

lemma name_LF_free:
  "LF \<notin> set ''id''" "LF \<notin> set ''event''" "LF \<notin> set ''data''" "LF \<notin> set ''retry''"
  by (simp_all add: LF_def)

lemma wireLines_LF_free:
  assumes "encodable e" "l \<in> set (wireLines e)"
  shows "LF \<notin> set (l @ [CR])"
proof -
  consider (i) "l \<in> set (case sse_id e of None \<Rightarrow> [] | Some i \<Rightarrow> [fieldLine ''id'' (replace_LINE_SEP i)])"
    | (v) "l \<in> set (case sse_event e of None \<Rightarrow> [] | Some ev \<Rightarrow> [fieldLine ''event'' (replace_LINE_SEP ev)])"
    | (d) "l \<in> set (case sse_data e of None \<Rightarrow> [] | Some d \<Rightarrow> map (fieldLine ''data'') (split_LINE_SEP d))"
    | (r) "l \<in> set (case sse_retry e of None \<Rightarrow> [] | Some r \<Rightarrow> [fieldLine ''retry'' (numberToString r)])"
    | (b) "l = []"
    using assms(2) unfolding wireLines_def set_append Un_iff by fastforce
  then show ?thesis
  proof cases
    case i
    then obtain x where x: "sse_id e = Some x" "l = fieldLine ''id'' (replace_LINE_SEP x)"
      by (cases "sse_id e") auto
    then have "LF \<notin> set (replace_LINE_SEP x)"
      using assms(1) by (simp add: encodable_def plainField_def replace_LINE_SEP_plain)
    then show ?thesis unfolding x(2) by (intro fieldLine_LF_free name_LF_free)
  next
    case v
    then obtain x where x: "sse_event e = Some x" "l = fieldLine ''event'' (replace_LINE_SEP x)"
      by (cases "sse_event e") auto
    then have "LF \<notin> set (replace_LINE_SEP x)"
      using assms(1) by (simp add: encodable_def plainField_def replace_LINE_SEP_plain)
    then show ?thesis unfolding x(2) by (intro fieldLine_LF_free name_LF_free)
  next
    case d
    then obtain x c where x: "sse_data e = Some x" "c \<in> set (split_LINE_SEP x)" "l = fieldLine ''data'' c"
      by (cases "sse_data e") auto
    then have "LF \<notin> set c" using split_LINE_SEP_plain by blast
    then show ?thesis unfolding x(3) by (intro fieldLine_LF_free name_LF_free)
  next
    case r
    then obtain x where x: "sse_retry e = Some x" "l = fieldLine ''retry'' (numberToString x)"
      by (cases "sse_retry e") auto
    obtain i where i: "x = Finite i" "integerBelow1e21 i"
      using encodable_retry [OF assms(1) x(1)] by blast
    show ?thesis
      unfolding x(2) i(1) by (intro fieldLine_LF_free name_LF_free numberToString_LF_free i(2))
  next
    case b
    then show ?thesis by (simp add: LF_def CR_def)
  qed
qed

lemma iterSSE_encode:
  assumes "encodable e"
  shows "iterSSE [encodeServerSentEvent e [] CRLF]
       = fst (decodeLines newSSEDecoder (map arriving (wireLines e)))"
proof -
  let ?ls = "map (\<lambda>l. l @ [CR]) (wireLines e)"
  have enc: "encodeServerSentEvent e [] CRLF = concat (map (\<lambda>l. l @ [LF]) ?ls)"
    by (simp add: encode_wireLines CRLF_def comp_def)
  have lf: "\<forall>l\<in>set ?ls. LF \<notin> set l"
    using wireLines_LF_free [OF assms] by auto
  have "drainBuffer newSSEDecoder (concat (map (\<lambda>l. l @ [LF]) ?ls))
      = (fst (decodeLines newSSEDecoder (map trim ?ls)),
         snd (decodeLines newSSEDecoder (map trim ?ls)), [])"
    using lf by (rule drainBuffer_lines)
  then have "fst (drainBuffer newSSEDecoder (encodeServerSentEvent e [] CRLF))
      = fst (decodeLines newSSEDecoder (map trim ?ls))"
    by (simp only: enc fst_conv)
  moreover have "map trim ?ls = map arriving (wireLines e)"
    by (simp add: arriving_def comp_def)
  ultimately show ?thesis by (simp only: iterSSE_single)
qed


lemma decodeLines_silent_prefix:
  "decodeLines st as = ([], st') \<Longrightarrow> decodeLines st (as @ bs) = decodeLines st' bs"
  by (simp add: decodeLines_append)

lemma decode_id_group:
  assumes "encodable e"
  shows "decodeLines st (map arriving (case sse_id e of None \<Rightarrow> [] | Some i \<Rightarrow> [fieldLine ''id'' (replace_LINE_SEP i)]))
       = ([], case sse_id e of None \<Rightarrow> st | Some i \<Rightarrow> st\<lparr>dec_lastEventId := i\<rparr>)"
proof (cases "sse_id e")
  case None
  then show ?thesis by simp
next
  case (Some i)
  then have p: "plainField i" "NUL \<notin> set i" using assms by (simp_all add: encodable_def)
  then have "replace_LINE_SEP i = i" by (simp add: plainField_def replace_LINE_SEP_plain)
  moreover have "decode st (arriving (fieldLine ''id'' i)) = (None, st\<lparr>dec_lastEventId := i\<rparr>)"
    using p by (intro decode_id_line) (simp_all add: plainField_def)
  ultimately show ?thesis using Some by simp
qed

lemma decode_event_group:
  assumes "encodable e"
  shows "decodeLines st (map arriving (case sse_event e of None \<Rightarrow> [] | Some ev \<Rightarrow> [fieldLine ''event'' (replace_LINE_SEP ev)]))
       = ([], case sse_event e of None \<Rightarrow> st | Some ev \<Rightarrow> st\<lparr>dec_event := ev\<rparr>)"
proof (cases "sse_event e")
  case None
  then show ?thesis by simp
next
  case (Some ev)
  then have p: "plainField ev" using assms by (simp_all add: encodable_def)
  then have "replace_LINE_SEP ev = ev" by (simp add: plainField_def replace_LINE_SEP_plain)
  moreover have "decode st (arriving (fieldLine ''event'' ev)) = (None, st\<lparr>dec_event := ev\<rparr>)"
    using p by (intro decode_event_line) (simp_all add: plainField_def)
  ultimately show ?thesis using Some by simp
qed

lemma decode_data_group:
  assumes "encodable e"
  shows "decodeLines st (map arriving (case sse_data e of None \<Rightarrow> [] | Some d \<Rightarrow> map (fieldLine ''data'') (split_LINE_SEP d)))
       = ([], case sse_data e of None \<Rightarrow> st | Some d \<Rightarrow> st\<lparr>dec_data := dec_data st @ split_LINE_SEP d\<rparr>)"
proof (cases "sse_data e")
  case None
  then show ?thesis by simp
next
  case (Some d)
  then have "list_all noTrailingSpace (split_LINE_SEP d)" using assms by (simp add: encodable_def)
  then show ?thesis using Some decode_data_lines [of "split_LINE_SEP d" st] by simp
qed

lemma decode_retry_group:
  assumes "encodable e"
  shows "decodeLines st (map arriving (case sse_retry e of None \<Rightarrow> [] | Some r \<Rightarrow> [fieldLine ''retry'' (numberToString r)]))
       = ([], case sse_retry e of None \<Rightarrow> st | Some r \<Rightarrow> st\<lparr>dec_retry := Some r\<rparr>)"
proof (cases "sse_retry e")
  case None
  then show ?thesis by simp
next
  case (Some r)
  obtain i where i: "r = Finite i" "integerBelow1e21 i"
    using encodable_retry [OF assms Some] by blast
  show ?thesis using Some i(1) decode_retry_line [OF i(2), of st] by simp
qed

lemma decode_wireLines:
  assumes "encodable e"
  shows "fst (decodeLines newSSEDecoder (map arriving (wireLines e)))
       = [\<lparr>sse_data = Some (nullish (sse_data e) []), sse_event = Some (nullish (sse_event e) []),
           sse_id = Some (nullish (sse_id e) []), sse_retry = sse_retry e\<rparr>]"
proof -
  let ?A = "case sse_id e of None \<Rightarrow> [] | Some i \<Rightarrow> [fieldLine ''id'' (replace_LINE_SEP i)]"
  let ?B = "case sse_event e of None \<Rightarrow> [] | Some ev \<Rightarrow> [fieldLine ''event'' (replace_LINE_SEP ev)]"
  let ?C = "case sse_data e of None \<Rightarrow> [] | Some d \<Rightarrow> map (fieldLine ''data'') (split_LINE_SEP d)"
  let ?D = "case sse_retry e of None \<Rightarrow> [] | Some r \<Rightarrow> [fieldLine ''retry'' (numberToString r)]"
  let ?s1 = "case sse_id e of None \<Rightarrow> newSSEDecoder | Some i \<Rightarrow> newSSEDecoder\<lparr>dec_lastEventId := i\<rparr>"
  let ?s2 = "case sse_event e of None \<Rightarrow> ?s1 | Some ev \<Rightarrow> ?s1\<lparr>dec_event := ev\<rparr>"
  let ?s3 = "case sse_data e of None \<Rightarrow> ?s2 | Some d \<Rightarrow> ?s2\<lparr>dec_data := dec_data ?s2 @ split_LINE_SEP d\<rparr>"
  let ?s4 = "case sse_retry e of None \<Rightarrow> ?s3 | Some r \<Rightarrow> ?s3\<lparr>dec_retry := Some r\<rparr>"
  have w: "map arriving (wireLines e)
      = map arriving ?A @ (map arriving ?B @ (map arriving ?C @ (map arriving ?D @ [arriving []])))"
    by (simp add: wireLines_def)
  have "decodeLines newSSEDecoder (map arriving (wireLines e)) = decodeLines ?s4 [arriving []]"
    unfolding w
    by (simp only: decodeLines_silent_prefix [OF decode_id_group [OF assms]]
        decodeLines_silent_prefix [OF decode_event_group [OF assms]]
        decodeLines_silent_prefix [OF decode_data_group [OF assms]]
        decodeLines_silent_prefix [OF decode_retry_group [OF assms]])
  then have "fst (decodeLines newSSEDecoder (map arriving (wireLines e)))
      = (case fst (decode ?s4 []) of None \<Rightarrow> [] | Some ev \<Rightarrow> [ev])"
    by (simp add: decode_blank_line split: prod.splits)
  moreover have "fst (decode ?s4 [])
      = Some \<lparr>sse_data = Some (nullish (sse_data e) []), sse_event = Some (nullish (sse_event e) []),
           sse_id = Some (nullish (sse_id e) []), sse_retry = sse_retry e\<rparr>"
  proof -
    have f: "dec_event ?s4 = nullish (sse_event e) []" "dec_lastEventId ?s4 = nullish (sse_id e) []"
      "dec_retry ?s4 = sse_retry e"
      "dec_data ?s4 = (case sse_data e of None \<Rightarrow> [] | Some d \<Rightarrow> split_LINE_SEP d)"
      by (simp_all add: newSSEDecoder_def nullish_def split: option.splits)
    have j: "join [LF] (dec_data ?s4) = nullish (sse_data e) []"
      using assms by (simp add: f encodable_def nullish_def join_split_LINE_SEP split: option.splits)
    have n: "\<not> (\<not> truthy (dec_event ?s4) \<and> length (dec_data ?s4) = 0
              \<and> \<not> truthy (dec_lastEventId ?s4) \<and> dec_retry ?s4 = None)"
      using assms split_LINE_SEP_nonempty
      by (auto simp: f encodable_def nullish_def truthy_opt_def split: option.splits)
    show ?thesis
      unfolding decode_def using n
      by (simp add: truthy_def f(1,2,3) j nullish_def)
  qed
  ultimately show ?thesis by simp
qed


text \<open>
  C1, as amended. Let \<open>e\<close> be an event that has data, a non-empty event name, a
  non-empty id or a retry; whose id and event name, when present, hold no line terminator
  and do not end in white space, the id holding no NUL; whose data, when present, holds
  no carriage return and has no line that ends in white space; and whose retry, when
  present, is an integer of magnitude below \<open>10^21\<close>. Then \<open>iterSSE\<close> on the
  default encoding of \<open>e\<close> yields exactly one event: its data is that of \<open>e\<close> (the empty
  string when absent), its id is that of \<open>e\<close> (the empty string when absent), its retry is
  that of \<open>e\<close> (unset when absent), and its event name is that of \<open>e\<close> when \<open>e\<close> has one.
\<close>

theorem codec_round_trip:
  "encodable e \<longrightarrow>
     length (iterSSE [encodeServerSentEvent e [] CRLF]) = 1
     \<and> map sse_data (iterSSE [encodeServerSentEvent e [] CRLF]) = [Some (nullish (sse_data e) [])]
     \<and> map sse_id (iterSSE [encodeServerSentEvent e [] CRLF]) = [Some (nullish (sse_id e) [])]
     \<and> map sse_retry (iterSSE [encodeServerSentEvent e [] CRLF]) = [sse_retry e]
     \<and> (sse_event e \<noteq> None
          \<longrightarrow> map sse_event (iterSSE [encodeServerSentEvent e [] CRLF]) = [sse_event e])"
proof
  assume a: "encodable e"
  have "iterSSE [encodeServerSentEvent e [] CRLF]
      = [\<lparr>sse_data = Some (nullish (sse_data e) []), sse_event = Some (nullish (sse_event e) []),
           sse_id = Some (nullish (sse_id e) []), sse_retry = sse_retry e\<rparr>]"
    using iterSSE_encode [OF a] decode_wireLines [OF a] by simp
  then show "length (iterSSE [encodeServerSentEvent e [] CRLF]) = 1
     \<and> map sse_data (iterSSE [encodeServerSentEvent e [] CRLF]) = [Some (nullish (sse_data e) [])]
     \<and> map sse_id (iterSSE [encodeServerSentEvent e [] CRLF]) = [Some (nullish (sse_id e) [])]
     \<and> map sse_retry (iterSSE [encodeServerSentEvent e [] CRLF]) = [sse_retry e]
     \<and> (sse_event e \<noteq> None
          \<longrightarrow> map sse_event (iterSSE [encodeServerSentEvent e [] CRLF]) = [sse_event e])"
    by (auto simp: nullish_def)
qed

lemma example_encodable:
  "encodable \<lparr>sse_data = Some [CHR ''a'', LF, LF, CHR ''b'', CHR '' '', CHR ''c''], sse_event = Some ''text'',
              sse_id = Some ''7'', sse_retry = Some (Finite 3000)\<rparr>"
  by code_simp

theorem codec_round_trip_witness:
  "encodable \<lparr>sse_data = Some [CHR ''a'', LF, LF, CHR ''b'', CHR '' '', CHR ''c''], sse_event = Some ''text'',
              sse_id = Some ''7'', sse_retry = Some (Finite 3000)\<rparr>
   \<and> length (iterSSE [encodeServerSentEvent
        \<lparr>sse_data = Some [CHR ''a'', LF, LF, CHR ''b'', CHR '' '', CHR ''c''], sse_event = Some ''text'',
         sse_id = Some ''7'', sse_retry = Some (Finite 3000)\<rparr> [] CRLF]) = 1
   \<and> map sse_data (iterSSE [encodeServerSentEvent
        \<lparr>sse_data = Some [CHR ''a'', LF, LF, CHR ''b'', CHR '' '', CHR ''c''], sse_event = Some ''text'',
         sse_id = Some ''7'', sse_retry = Some (Finite 3000)\<rparr> [] CRLF])
       = [Some [CHR ''a'', LF, LF, CHR ''b'', CHR '' '', CHR ''c'']]
   \<and> map sse_id (iterSSE [encodeServerSentEvent
        \<lparr>sse_data = Some [CHR ''a'', LF, LF, CHR ''b'', CHR '' '', CHR ''c''], sse_event = Some ''text'',
         sse_id = Some ''7'', sse_retry = Some (Finite 3000)\<rparr> [] CRLF]) = [Some ''7'']
   \<and> map sse_retry (iterSSE [encodeServerSentEvent
        \<lparr>sse_data = Some [CHR ''a'', LF, LF, CHR ''b'', CHR '' '', CHR ''c''], sse_event = Some ''text'',
         sse_id = Some ''7'', sse_retry = Some (Finite 3000)\<rparr> [] CRLF]) = [Some (Finite 3000)]
   \<and> map sse_event (iterSSE [encodeServerSentEvent
        \<lparr>sse_data = Some [CHR ''a'', LF, LF, CHR ''b'', CHR '' '', CHR ''c''], sse_event = Some ''text'',
         sse_id = Some ''7'', sse_retry = Some (Finite 3000)\<rparr> [] CRLF]) = [Some ''text'']"
  using codec_round_trip [of "\<lparr>sse_data = Some [CHR ''a'', LF, LF, CHR ''b'', CHR '' '', CHR ''c''],
      sse_event = Some ''text'', sse_id = Some ''7'', sse_retry = Some (Finite 3000)\<rparr>"] example_encodable
  by (simp add: nullish_def)

text \<open>
  The claim as stated fails, on events whose data holds no NUL. The event with every
  field absent encodes to one blank line and decodes to no event. An event with data
  only decodes to an event whose id and event name are the empty string, neither absent
  nor \<open>message\<close>. A carriage return inside the data comes back as a line feed. An id that
  holds a NUL is dropped by the decoder. A line terminator inside the id or the event
  name is removed by the encoder. White space at the end of the id, of the event name or
  of a data line is trimmed away by \<open>iterSSE\<close>. A retry of \<open>10^21\<close> is written as
  \<open>1e+21\<close> and read back as 1, and an infinite retry is written as \<open>Infinity\<close> and
  read back as no retry.
\<close>

theorem codec_round_trip_counterexample:
  "iterSSE [encodeServerSentEvent emptySSE [] CRLF] = []
   \<and> iterSSE [encodeServerSentEvent (emptySSE\<lparr>sse_data := Some ''x''\<rparr>) [] CRLF]
       = [\<lparr>sse_data = Some ''x'', sse_event = Some [], sse_id = Some [], sse_retry = None\<rparr>]
   \<and> iterSSE [encodeServerSentEvent (emptySSE\<lparr>sse_data := Some [CHR ''a'', CR, CHR ''b'']\<rparr>) [] CRLF]
       = [\<lparr>sse_data = Some [CHR ''a'', LF, CHR ''b''], sse_event = Some [], sse_id = Some [], sse_retry = None\<rparr>]
   \<and> iterSSE [encodeServerSentEvent (emptySSE\<lparr>sse_data := Some ''x'', sse_id := Some [CHR ''a'', NUL]\<rparr>) [] CRLF]
       = [\<lparr>sse_data = Some ''x'', sse_event = Some [], sse_id = Some [], sse_retry = None\<rparr>]
   \<and> iterSSE [encodeServerSentEvent
         (emptySSE\<lparr>sse_data := Some ''x'', sse_id := Some [CHR ''a'', LF, CHR ''b'']\<rparr>) [] CRLF]
       = [\<lparr>sse_data = Some ''x'', sse_event = Some [], sse_id = Some ''ab'', sse_retry = None\<rparr>]
   \<and> iterSSE [encodeServerSentEvent
         (emptySSE\<lparr>sse_data := Some ''x'', sse_event := Some [CHR ''a'', CR, CHR ''b'']\<rparr>) [] CRLF]
       = [\<lparr>sse_data = Some ''x'', sse_event = Some ''ab'', sse_id = Some [], sse_retry = None\<rparr>]
   \<and> iterSSE [encodeServerSentEvent (emptySSE\<lparr>sse_data := Some ''x'', sse_id := Some ''7 ''\<rparr>) [] CRLF]
       = [\<lparr>sse_data = Some ''x'', sse_event = Some [], sse_id = Some ''7'', sse_retry = None\<rparr>]
   \<and> iterSSE [encodeServerSentEvent (emptySSE\<lparr>sse_data := Some ''x'', sse_event := Some ''e ''\<rparr>) [] CRLF]
       = [\<lparr>sse_data = Some ''x'', sse_event = Some ''e'', sse_id = Some [], sse_retry = None\<rparr>]
   \<and> iterSSE [encodeServerSentEvent (emptySSE\<lparr>sse_data := Some ''x ''\<rparr>) [] CRLF]
       = [\<lparr>sse_data = Some ''x'', sse_event = Some [], sse_id = Some [], sse_retry = None\<rparr>]
   \<and> encodeServerSentEvent (emptySSE\<lparr>sse_data := Some ''x'', sse_retry := Some (Finite (10 ^ 21))\<rparr>) [] CRLF
       = ''data: x'' @ CRLF @ ''retry: 1e+21'' @ CRLF @ CRLF
   \<and> iterSSE [encodeServerSentEvent
         (emptySSE\<lparr>sse_data := Some ''x'', sse_retry := Some (Finite (10 ^ 21))\<rparr>) [] CRLF]
       = [\<lparr>sse_data = Some ''x'', sse_event = Some [], sse_id = Some [], sse_retry = Some (Finite 1)\<rparr>]
   \<and> iterSSE [encodeServerSentEvent (emptySSE\<lparr>sse_data := Some ''x'', sse_retry := Some PosInfinity\<rparr>) [] CRLF]
       = [\<lparr>sse_data = Some ''x'', sse_event = Some [], sse_id = Some [], sse_retry = None\<rparr>]"
  by code_simp

end
